theory Spec2Isabelle
  imports Main "HOL-Library.Word" "HOL-Library.Sublist"
begin

unbundle bit_operations_syntax

section \<open>JavaScript strings\<close>

text \<open>
  A JavaScript string is a sequence of UTF-16 code units; \<open>length\<close>, \<open>substring\<close>,
  \<open>charCodeAt\<close> and \<open>includes\<close> all count code units. String literals of the source are
  written \<open>js ''...''\<close>.
\<close>

type_synonym js_string = "16 word list"

definition js :: "string \<Rightarrow> js_string" where
  "js s = map of_char s"

text \<open>\<open>s.includes(sub)\<close>: \<open>sub\<close> occurs in \<open>s\<close> as a contiguous block (case-sensitive).\<close>

fun js_includes :: "js_string \<Rightarrow> js_string \<Rightarrow> bool" where
  "js_includes [] sub = (sub = [])"
| "js_includes (c # cs) sub = (prefix sub (c # cs) \<or> js_includes cs sub)"

text \<open>\<open>s.trim()\<close> removes the ECMAScript white space and line terminators at both ends.\<close>

definition is_whitespace :: "16 word \<Rightarrow> bool" where
  "is_whitespace c =
     (c = 0x9 \<or> c = 0xA \<or> c = 0xB \<or> c = 0xC \<or> c = 0xD \<or> c = 0x20 \<or> c = 0xA0
      \<or> c = 0x1680 \<or> (0x2000 \<le> c \<and> c \<le> 0x200A) \<or> c = 0x2028 \<or> c = 0x2029
      \<or> c = 0x202F \<or> c = 0x205F \<or> c = 0x3000 \<or> c = 0xFEFF)"

definition trim :: "js_string \<Rightarrow> js_string" where
  "trim s = rev (dropWhile is_whitespace (rev (dropWhile is_whitespace s)))"

text \<open>Truthiness of a value that is \<open>null\<close> or a string: \<open>null\<close> and \<open>''\<close> are falsy.\<close>

definition truthy :: "js_string option \<Rightarrow> bool" where
  "truthy v = (case v of None \<Rightarrow> False | Some s \<Rightarrow> s \<noteq> [])"

section \<open>Data model of the chat client (the \<open>App\<close> component)\<close>

record js_error =
  err_name :: js_string
  err_message :: js_string

record profile =
  profile_id :: nat
  profile_username :: js_string
  profile_email :: js_string

record contact =
  contact_id :: nat
  username :: js_string

record message =
  msg_id :: nat
  content :: js_string
  sender_id :: nat
  created_at :: js_string
  isOwn :: bool
  pending :: bool

text \<open>
  \<open>connectionStatus\<close> is a string in the source, one of \<open>'disconnected'\<close>, \<open>'connecting'\<close>,
  \<open>'connected'\<close>, \<open>'error'\<close>, \<open>'failed'\<close> and the template \<open>`reconnecting (${attempt}/5)`\<close>;
  \<open>Reconnecting n\<close> stands for the last one with \<open>attempt = n\<close>.
\<close>

datatype conn_status =
  Disconnected | Connecting | Connected | ConnError | Reconnecting nat | Failed

datatype permission = PermDefault | PermGranted | PermDenied

text \<open>What the component sends to the outside: socket emissions, dialogs, channel calls.\<close>

datatype out_event =
  SendMessageOut nat js_string
| TypingStartOut nat
| TypingStopOut nat

datatype effect =
  Emit out_event
| Alert js_string
| Confirm js_string
| OpenChannel js_string
| CloseChannel
| ShowNotification js_string js_string
| FetchUsers js_string
| UnhandledRejection

text \<open>
  A pending \<open>setTimeout\<close>. The callback of the typing timer calls the \<open>handleTypingStop\<close> of
  the render in which the timer was set, so it carries the \<open>isTyping\<close> and \<open>selectedUser\<close>
  that render saw; the delivery callback carries the provisional id of its message.
\<close>

datatype callback =
  TypingStopCb bool "contact option"
| DeliveredCb nat

record timer =
  timer_id :: nat
  deadline :: nat
  callback :: callback

text \<open>
  The object in \<open>socketRef.current\<close>. Its event handlers are created once, inside
  \<open>initializeSocket\<close>, and read the \<open>selectedUser\<close> of the render that called it.
\<close>

record socket =
  auth_token :: js_string
  seen_selectedUser :: "contact option"

record app_state =
  ls_token :: "js_string option"
  ls_userData :: "js_string option"
  currentUser :: "profile option"
  users :: "contact list"
  selectedUser :: "contact option"
  messages :: "message list"
  newMessage :: js_string
  onlineUsers :: "nat set"
  connectionStatus :: conn_status
  typingUsers :: "nat set"
  isTyping :: bool
  socketRef :: "socket option"
  typingTimeoutRef :: "nat option"
  timers :: "timer list"
  next_timer :: nat
  effects :: "effect list"

text \<open>
  The browser around one call: the JSON functions, the clock, the user's answer to
  \<open>window.confirm\<close>, page visibility, \<open>Notification.permission\<close> (\<open>None\<close> when the page has
  no \<open>Notification\<close> API), and whether \<open>io(...)\<close> or \<open>socket.emit\<close> throws.
  View-only state (loading flags, sidebar, focus, scrolling) and console output are left out.
\<close>

record env =
  JSON_parse :: "js_string \<Rightarrow> js_error + profile"
  JSON_stringify :: "profile \<Rightarrow> js_string"
  toISOString :: "nat \<Rightarrow> js_string"
  now :: nat
  confirm_answer :: bool
  document_hidden :: bool
  notification :: "permission option"
  io_throws :: bool
  emit_throws :: bool

definition add_effect :: "effect \<Rightarrow> app_state \<Rightarrow> app_state" where
  "add_effect e s = s\<lparr>effects := effects s @ [e]\<rparr>"

section \<open>Timers\<close>

definition setTimeout :: "callback \<Rightarrow> nat \<Rightarrow> nat \<Rightarrow> app_state \<Rightarrow> nat \<times> app_state" where
  "setTimeout cb delay t s =
     (next_timer s,
      s\<lparr>timers := timers s @ [\<lparr>timer_id = next_timer s, deadline = t + delay, callback = cb\<rparr>],
        next_timer := Suc (next_timer s)\<rparr>)"

definition clearTimeout :: "nat option \<Rightarrow> app_state \<Rightarrow> app_state" where
  "clearTimeout r s =
     (case r of None \<Rightarrow> s
      | Some i \<Rightarrow> s\<lparr>timers := filter (\<lambda>t. timer_id t \<noteq> i) (timers s)\<rparr>)"

section \<open>Typing indicator\<close>

text \<open>
  \<open>handleTypingStop\<close> as seen from a closure whose render had \<open>isTyping = it\<close> and
  \<open>selectedUser = sel\<close>; \<open>socketRef\<close> and \<open>typingTimeoutRef\<close> are refs and are read live.
\<close>

definition handleTypingStop_in :: "bool \<Rightarrow> contact option \<Rightarrow> app_state \<Rightarrow> app_state" where
  "handleTypingStop_in it sel s =
     (case sel of
        None \<Rightarrow> s
      | Some u \<Rightarrow>
          if socketRef s = None \<or> \<not> it then s
          else clearTimeout (typingTimeoutRef s)
                 (add_effect (Emit (TypingStopOut (contact_id u))) (s\<lparr>isTyping := False\<rparr>)))"

definition handleTypingStop :: "app_state \<Rightarrow> app_state" where
  "handleTypingStop s = handleTypingStop_in (isTyping s) (selectedUser s) s"

definition handleTypingStart :: "env \<Rightarrow> app_state \<Rightarrow> app_state" where
  "handleTypingStart E s =
     (case selectedUser s of
        None \<Rightarrow> s
      | Some u \<Rightarrow>
          if socketRef s = None \<or> isTyping s then s
          else
            let s1 = add_effect (Emit (TypingStartOut (contact_id u))) (s\<lparr>isTyping := True\<rparr>);
                s2 = clearTimeout (typingTimeoutRef s1) s1;
                (i, s3) = setTimeout (TypingStopCb (isTyping s) (selectedUser s)) 2000 (now E) s2
            in s3\<lparr>typingTimeoutRef := Some i\<rparr>)"

definition handleInputChange :: "env \<Rightarrow> js_string \<Rightarrow> app_state \<Rightarrow> app_state" where
  "handleInputChange E v s =
     (let s1 = s\<lparr>newMessage := v\<rparr>
      in if trim v \<noteq> [] then handleTypingStart E s1 else handleTypingStop s1)"

definition run_callback :: "callback \<Rightarrow> app_state \<Rightarrow> app_state" where
  "run_callback cb s =
     (case cb of
        TypingStopCb it sel \<Rightarrow> handleTypingStop_in it sel s
      | DeliveredCb i \<Rightarrow>
          s\<lparr>messages := map (\<lambda>m. if msg_id m = i then m\<lparr>pending := False\<rparr> else m) (messages s)\<rparr>)"

text \<open>The timer with id \<open>i\<close> expires: it leaves the table and its callback runs.\<close>

definition fire_timer :: "nat \<Rightarrow> app_state \<Rightarrow> app_state" where
  "fire_timer i s =
     (case find (\<lambda>t. timer_id t = i) (timers s) of
        None \<Rightarrow> s
      | Some t \<Rightarrow> run_callback (callback t) (s\<lparr>timers := filter (\<lambda>t. timer_id t \<noteq> i) (timers s)\<rparr>))"

section \<open>Credential store and startup validation\<close>

definition clearAuthData :: "app_state \<Rightarrow> app_state" where
  "clearAuthData s = s\<lparr>ls_token := None, ls_userData := None, currentUser := None\<rparr>"

text \<open>
  \<open>handleLogout\<close> asks \<open>window.confirm\<close> first and does nothing when the user cancels.
  \<open>socketRef.current?.disconnect()\<close> closes the channel; the ref keeps the socket object.
\<close>

definition handleLogout :: "env \<Rightarrow> app_state \<Rightarrow> app_state" where
  "handleLogout E s =
     (let s0 = add_effect (Confirm (js ''Are you sure you want to logout?'')) s
      in if confirm_answer E then
           let s1 = clearAuthData s0;
               s2 = s1\<lparr>currentUser := None, selectedUser := None, messages := [], users := []\<rparr>;
               s3 = (case socketRef s2 of None \<Rightarrow> s2 | Some _ \<Rightarrow> add_effect CloseChannel s2)
           in add_effect (Alert (js ''You have been logged out successfully.'')) s3
         else s0)"

text \<open>
  The outcome of \<open>fetch\<close>: it rejects with an error, or resolves with a response that has a
  status, a \<open>content-type\<close> header (or none) and a body on which \<open>res.json()\<close> either throws
  or yields the profile. \<open>res.ok\<close> is a status in the range 200 to 299.
\<close>

record response =
  status :: nat
  content_type :: "js_string option"
  json_body :: "js_error + profile"

datatype fetch_result = FetchThrows js_error | FetchResponse response

definition res_ok :: "response \<Rightarrow> bool" where
  "res_ok r = (200 \<le> status r \<and> status r \<le> 299)"

text \<open>The \<open>catch\<close> block of \<open>validateToken\<close>.\<close>

definition validateToken_catch :: "js_error \<Rightarrow> app_state \<Rightarrow> bool \<times> app_state" where
  "validateToken_catch e s =
     (if err_name e = js ''TypeError'' \<and> js_includes (err_message e) (js ''JSON'')
      then (True, s) else (False, s))"

definition validateToken :: "env \<Rightarrow> fetch_result \<Rightarrow> app_state \<Rightarrow> bool \<times> app_state" where
  "validateToken E fr s =
     (case fr of
        FetchThrows e \<Rightarrow> validateToken_catch e s
      | FetchResponse r \<Rightarrow>
          if \<not> truthy (content_type r)
             \<or> \<not> js_includes (the (content_type r)) (js ''application/json'')
          then (False, s)
          else if res_ok r then
            (case json_body r of
               Inl e \<Rightarrow> validateToken_catch e s
             | Inr userData \<Rightarrow>
                 (True, s\<lparr>ls_userData := Some (JSON_stringify E userData),
                          currentUser := Some userData\<rparr>))
          else (False, s))"

text \<open>
  \<open>initializeSocket\<close>: the status becomes \<open>'connecting'\<close>, \<open>io(BACKEND_URL, ...)\<close> is called with
  the token and the new socket replaces the one in \<open>socketRef\<close>; when \<open>io\<close> throws the status
  becomes \<open>'error'\<close>. The handlers it registers are the \<open>on_...\<close> functions below.
\<close>

definition initializeSocket :: "env \<Rightarrow> js_string \<Rightarrow> app_state \<Rightarrow> app_state" where
  "initializeSocket E token s =
     (let s1 = add_effect (OpenChannel token) (s\<lparr>connectionStatus := Connecting\<rparr>)
      in if io_throws E then s1\<lparr>connectionStatus := ConnError\<rparr>
         else s1\<lparr>socketRef := Some \<lparr>auth_token = token, seen_selectedUser = selectedUser s\<rparr>\<rparr>)"

text \<open>
  \<open>loadUsers\<close> up to its first \<open>await\<close>: without a stored token it logs out, otherwise it
  issues \<open>GET /api/users\<close>. The handling of that response is a later event.
\<close>

definition loadUsers_request :: "env \<Rightarrow> app_state \<Rightarrow> app_state" where
  "loadUsers_request E s =
     (if \<not> truthy (ls_token s) then handleLogout E s
      else add_effect (FetchUsers (the (ls_token s))) s)"

text \<open>
  \<open>initializeApp\<close> together with the continuation of \<open>validateToken(token).then(...)\<close>, for the
  given outcome of the validation request. \<open>validateToken\<close> catches every error itself, so the
  promise never rejects and the \<open>.catch\<close> handler never runs.
\<close>

definition initializeApp :: "env \<Rightarrow> fetch_result \<Rightarrow> app_state \<Rightarrow> app_state" where
  "initializeApp E fr s =
     (if truthy (ls_token s) \<and> truthy (ls_userData s) then
        (case JSON_parse E (the (ls_userData s)) of
           Inl e \<Rightarrow> clearAuthData s
         | Inr parsedUserData \<Rightarrow>
             let s1 = s\<lparr>currentUser := Some parsedUserData\<rparr>;
                 (isValid, s2) = validateToken E fr s1
             in if \<not> isValid then clearAuthData s2
                else loadUsers_request E (initializeSocket E (the (ls_token s)) s2))
      else s)"

section \<open>Handlers of the socket events\<close>

definition on_connect :: "app_state \<Rightarrow> app_state" where
  "on_connect s = s\<lparr>connectionStatus := Connected\<rparr>"

definition on_disconnect :: "app_state \<Rightarrow> app_state" where
  "on_disconnect s = s\<lparr>connectionStatus := Disconnected\<rparr>"

definition on_connect_error :: "env \<Rightarrow> js_error \<Rightarrow> app_state \<Rightarrow> app_state" where
  "on_connect_error E err s =
     (let s1 = s\<lparr>connectionStatus := ConnError\<rparr>
      in if js_includes (err_message err) (js ''auth'') \<or> js_includes (err_message err) (js ''401'')
         then add_effect (Alert (js ''Session expired. Please login again.'')) (handleLogout E s1)
         else s1)"

definition on_reconnect_attempt :: "nat \<Rightarrow> app_state \<Rightarrow> app_state" where
  "on_reconnect_attempt attempt s = s\<lparr>connectionStatus := Reconnecting attempt\<rparr>"

definition on_reconnect_failed :: "app_state \<Rightarrow> app_state" where
  "on_reconnect_failed s =
     add_effect
       (Alert (js ''Unable to connect to server. Please check your internet connection.''))
       (s\<lparr>connectionStatus := Failed\<rparr>)"

text \<open>
  The \<open>'message'\<close> handler; \<open>sel\<close> is the \<open>selectedUser\<close> its closure sees.
  \<open>selectedUser?.username || 'Someone'\<close> falls back when no user is selected or the name is empty.
\<close>

definition notification_title :: "contact option \<Rightarrow> js_string" where
  "notification_title sel =
     js ''New message from '' @
       (case sel of
          None \<Rightarrow> js ''Someone''
        | Some u \<Rightarrow> if username u = [] then js ''Someone'' else username u)"

definition notification_body :: "js_string \<Rightarrow> js_string" where
  "notification_body c = (if length c > 50 then take 50 c @ js ''...'' else c)"

definition on_message :: "env \<Rightarrow> contact option \<Rightarrow> message \<Rightarrow> app_state \<Rightarrow> app_state" where
  "on_message E sel m s =
     (let s1 = s\<lparr>messages := messages s @ [m\<lparr>isOwn := False\<rparr>]\<rparr>
      in if document_hidden E \<and> notification E = Some PermGranted
         then add_effect (ShowNotification (notification_title sel) (notification_body (content m))) s1
         else s1)"

definition on_user_online :: "nat \<Rightarrow> app_state \<Rightarrow> app_state" where
  "on_user_online userId s = s\<lparr>onlineUsers := insert userId (onlineUsers s)\<rparr>"

definition on_user_offline :: "nat \<Rightarrow> app_state \<Rightarrow> app_state" where
  "on_user_offline userId s = s\<lparr>onlineUsers := onlineUsers s - {userId}\<rparr>"

definition on_typing_start :: "nat \<Rightarrow> app_state \<Rightarrow> app_state" where
  "on_typing_start userId s = s\<lparr>typingUsers := insert userId (typingUsers s)\<rparr>"

definition on_typing_stop :: "nat \<Rightarrow> app_state \<Rightarrow> app_state" where
  "on_typing_stop userId s = s\<lparr>typingUsers := typingUsers s - {userId}\<rparr>"

text \<open>\<open>'error'\<close>: an alert when the error has a non-empty message without \<open>'auth'\<close> in it.\<close>

definition on_error :: "js_string option \<Rightarrow> app_state \<Rightarrow> app_state" where
  "on_error msg s =
     (if truthy msg \<and> \<not> js_includes (the msg) (js ''auth'')
      then add_effect (Alert (the msg)) s else s)"

datatype socket_event =
  ConnectEv
| DisconnectEv
| ConnectErrorEv js_error
| ReconnectAttemptEv nat
| ReconnectFailedEv
| MessageEv message
| UserOnlineEv nat
| UserOfflineEv nat
| TypingStartEv nat
| TypingStopEv nat
| MessageDeliveredEv
| ErrorEv "js_string option"

text \<open>
  The socket in \<open>socketRef\<close> delivers an event to the handlers registered on it; without a
  socket there are no handlers.
\<close>

definition socket_event :: "env \<Rightarrow> socket_event \<Rightarrow> app_state \<Rightarrow> app_state" where
  "socket_event E ev s =
     (case socketRef s of
        None \<Rightarrow> s
      | Some sock \<Rightarrow>
          (case ev of
             ConnectEv \<Rightarrow> on_connect s
           | DisconnectEv \<Rightarrow> on_disconnect s
           | ConnectErrorEv err \<Rightarrow> on_connect_error E err s
           | ReconnectAttemptEv n \<Rightarrow> on_reconnect_attempt n s
           | ReconnectFailedEv \<Rightarrow> on_reconnect_failed s
           | MessageEv m \<Rightarrow> on_message E (seen_selectedUser sock) m s
           | UserOnlineEv u \<Rightarrow> on_user_online u s
           | UserOfflineEv u \<Rightarrow> on_user_offline u s
           | TypingStartEv u \<Rightarrow> on_typing_start u s
           | TypingStopEv u \<Rightarrow> on_typing_stop u s
           | MessageDeliveredEv \<Rightarrow> s
           | ErrorEv msg \<Rightarrow> on_error msg s))"

text \<open>A run of events, each with the browser environment at its time, and the states passed.\<close>

fun run_events :: "(env \<times> socket_event) list \<Rightarrow> app_state \<Rightarrow> app_state" where
  "run_events [] s = s"
| "run_events ((E, ev) # evs) s = run_events evs (socket_event E ev s)"



section \<open>Sending a message\<close>

text \<open>
  \<open>sendMessage\<close>. \<open>Date.now()\<close> is the provisional id. \<open>currentUser.id\<close> throws when there is no
  current user; the function is \<open>async\<close>, so that is an unhandled rejection after the typing
  indicator was stopped. When \<open>emit\<close> throws, the \<open>catch\<close> block filters the message out again;
  otherwise the delivery timer is set for one second later.
\<close>

definition sendMessage :: "env \<Rightarrow> app_state \<Rightarrow> app_state" where
  "sendMessage E s =
     (let c = trim (newMessage s)
      in case selectedUser s of
           None \<Rightarrow> s
         | Some u \<Rightarrow>
             if c = [] \<or> socketRef s = None then s
             else
               let s1 = handleTypingStop s
               in case currentUser s1 of
                    None \<Rightarrow> add_effect UnhandledRejection s1
                  | Some cu \<Rightarrow>
                      let optimisticMessage =
                            \<lparr>msg_id = now E, content = c, sender_id = profile_id cu,
                             created_at = toISOString E (now E), isOwn = True, pending = True\<rparr>;
                          s2 = s1\<lparr>messages := messages s1 @ [optimisticMessage], newMessage := []\<rparr>
                      in if emit_throws E then
                           add_effect (Alert (js ''Failed to send message. Please try again.''))
                             (s2\<lparr>messages :=
                                   filter (\<lambda>msg. msg_id msg \<noteq> msg_id optimisticMessage) (messages s2)\<rparr>)
                         else
                           snd (setTimeout (DeliveredCb (msg_id optimisticMessage)) 1000 (now E)
                                  (add_effect (Emit (SendMessageOut (contact_id u) c)) s2)))"

text \<open>
  The send affordances of the view. The chat pane exists when a user is logged in and a
  conversation is selected; the input has \<open>disabled={connectionStatus !== 'connected'}\<close> and
  the button \<open>disabled={!newMessage.trim() || connectionStatus !== 'connected'}\<close>. A disabled
  or absent element delivers no event.
\<close>

definition chat_pane_rendered :: "app_state \<Rightarrow> bool" where
  "chat_pane_rendered s = (currentUser s \<noteq> None \<and> selectedUser s \<noteq> None)"

definition input_disabled :: "app_state \<Rightarrow> bool" where
  "input_disabled s = (connectionStatus s \<noteq> Connected)"

definition send_button_disabled :: "app_state \<Rightarrow> bool" where
  "send_button_disabled s = (trim (newMessage s) = [] \<or> connectionStatus s \<noteq> Connected)"

definition click_send :: "env \<Rightarrow> app_state \<Rightarrow> app_state" where
  "click_send E s =
     (if chat_pane_rendered s \<and> \<not> send_button_disabled s then sendMessage E s else s)"

text \<open>\<open>handleKeyPress\<close> on the input: Enter without Shift sends.\<close>

definition handleKeyPress :: "env \<Rightarrow> bool \<Rightarrow> bool \<Rightarrow> app_state \<Rightarrow> app_state" where
  "handleKeyPress E is_enter shift s = (if is_enter \<and> \<not> shift then sendMessage E s else s)"

definition press_key :: "env \<Rightarrow> bool \<Rightarrow> bool \<Rightarrow> app_state \<Rightarrow> app_state" where
  "press_key E is_enter shift s =
     (if chat_pane_rendered s \<and> \<not> input_disabled s then handleKeyPress E is_enter shift s else s)"

section \<open>VAPID key conversion\<close>

text \<open>
  Both files start \<open>urlBase64ToUint8Array\<close> with the same two statements: the padding
  \<open>'='.repeat((4 - base64String.length % 4) % 4)\<close> and the two global replacements
  (\<open>/\-/g\<close> and \<open>/-/g\<close> are the same pattern).
\<close>

definition replace_all :: "16 word \<Rightarrow> 16 word \<Rightarrow> js_string \<Rightarrow> js_string" where
  "replace_all a b s = map (\<lambda>c. if c = a then b else c) s"

definition base64_of :: "js_string \<Rightarrow> js_string" where
  "base64_of base64String =
     (let padding = concat (replicate ((4 - length base64String mod 4) mod 4) (js ''=''))
      in replace_all (of_char CHR ''_'') (of_char CHR ''/'')
           (replace_all (of_char CHR ''-'') (of_char CHR ''+'') (base64String @ padding)))"

text \<open>
  \<open>s.charCodeAt(i)\<close> is \<open>NaN\<close> (here \<open>None\<close>) out of range; storing a number into a
  \<open>Uint8Array\<close> keeps it modulo 256 and stores 0 for \<open>NaN\<close>.
\<close>

definition charCodeAt :: "js_string \<Rightarrow> nat \<Rightarrow> 16 word option" where
  "charCodeAt s i = (if i < length s then Some (s ! i) else None)"

definition toUint8 :: "16 word option \<Rightarrow> 8 word" where
  "toUint8 v = (case v of None \<Rightarrow> 0 | Some w \<Rightarrow> ucast w)"

text \<open>
  \<open>[...rawData]\<close> iterates a string by code points: a high surrogate followed by a low
  surrogate is one element of two code units, every other code unit is an element by itself.
\<close>

definition is_high_surrogate :: "16 word \<Rightarrow> bool" where
  "is_high_surrogate c = (0xD800 \<le> c \<and> c \<le> 0xDBFF)"

definition is_low_surrogate :: "16 word \<Rightarrow> bool" where
  "is_low_surrogate c = (0xDC00 \<le> c \<and> c \<le> 0xDFFF)"

fun spread :: "js_string \<Rightarrow> js_string list" where
  "spread [] = []"
| "spread [c] = [[c]]"
| "spread (c # d # cs) =
     (if is_high_surrogate c \<and> is_low_surrogate d then [c, d] # spread cs
      else [c] # spread (d # cs))"

text \<open>
  \<open>src/src/App.js\<close>: \<open>Uint8Array.from([...rawData].map((c) => c.charCodeAt(0)))\<close>.
  \<open>atob\<close> is the browser's; it throws on input that is not base64.
\<close>

definition urlBase64ToUint8Array_App ::
  "(js_string \<Rightarrow> js_error + js_string) \<Rightarrow> js_string \<Rightarrow> js_error + 8 word list" where
  "urlBase64ToUint8Array_App atob base64String =
     (case atob (base64_of base64String) of
        Inl e \<Rightarrow> Inl e
      | Inr rawData \<Rightarrow> Inr (map (\<lambda>c. toUint8 (charCodeAt c 0)) (spread rawData)))"

text \<open>
  The other file: a zero-filled \<open>new Uint8Array(rawData.length)\<close> and the loop
  \<open>for (let i = 0; i < rawData.length; ++i) outputArray[i] = rawData.charCodeAt(i)\<close>.
\<close>

function fill_loop :: "js_string \<Rightarrow> nat \<Rightarrow> 8 word list \<Rightarrow> 8 word list" where
  "fill_loop rawData i outputArray =
     (if i < length rawData
      then fill_loop rawData (Suc i) (outputArray[i := toUint8 (charCodeAt rawData i)])
      else outputArray)"
  by pat_completeness auto
termination
  by (relation "measure (\<lambda>(rawData, i, outputArray). length rawData - i)") auto

declare fill_loop.simps [simp del]

definition urlBase64ToUint8Array ::
  "(js_string \<Rightarrow> js_error + js_string) \<Rightarrow> js_string \<Rightarrow> js_error + 8 word list" where
  "urlBase64ToUint8Array atob base64String =
     (case atob (base64_of base64String) of
        Inl e \<Rightarrow> Inl e
      | Inr rawData \<Rightarrow> Inr (fill_loop rawData 0 (replicate (length rawData) 0)))"

section \<open>The reconnection policy of the channel\<close>




section \<open>Leaving and loading a conversation\<close>

definition handleBackToContacts :: "app_state \<Rightarrow> app_state" where
  "handleBackToContacts s = s\<lparr>selectedUser := None, messages := []\<rparr>"

text \<open>
  \<open>loadMessages\<close> from the point where \<open>fetch\<close> settles. \<open>seen_users\<close> is the \<open>users\<close> list of
  the render in which the contact was clicked.
\<close>

record messages_response =
  m_status :: nat
  m_content_type :: "js_string option"
  m_json_body :: "js_error + message list"

datatype messages_fetch = MessagesFetchThrows js_error | MessagesFetchResponse messages_response

definition loadMessages_catch :: "js_error \<Rightarrow> app_state \<Rightarrow> app_state" where
  "loadMessages_catch e s =
     (if err_name e \<noteq> js ''TypeError''
      then add_effect (Alert (js ''Failed to load messages. Please try again.'')) s else s)"

definition loadMessages ::
  "env \<Rightarrow> nat \<Rightarrow> contact list \<Rightarrow> messages_fetch \<Rightarrow> app_state \<Rightarrow> app_state" where
  "loadMessages E userId seen_users fr s =
     (case fr of
        MessagesFetchThrows e \<Rightarrow> loadMessages_catch e s
      | MessagesFetchResponse r \<Rightarrow>
          if \<not> truthy (m_content_type r)
             \<or> \<not> js_includes (the (m_content_type r)) (js ''application/json'')
          then s\<lparr>messages := []\<rparr>
          else if 200 \<le> m_status r \<and> m_status r \<le> 299 then
            (case m_json_body r of
               Inl e \<Rightarrow> loadMessages_catch e s
             | Inr messagesData \<Rightarrow>
                 s\<lparr>messages := messagesData,
                   selectedUser := find (\<lambda>user. contact_id user = userId) seen_users\<rparr>)
          else if m_status r = 401 then
            add_effect (Alert (js ''Your session has expired. Please login again.''))
              (handleLogout E s)
          else loadMessages_catch
                 \<lparr>err_name = js ''Error'', err_message = js ''Failed to load messages''\<rparr> s)"

section \<open>Runs of the component\<close>

text \<open>
  The steps of the component that read or write the message list or the timers, one at a
  time: an event of the socket, a change of the message input, a click on the send button, a
  key press in the input, a timer that expires, the back button of the chat header, a settled
  \<open>loadMessages\<close> request, the logout button. An element that is disabled or not rendered
  delivers nothing. Loading the contact list, the startup validation and logging in touch
  neither the message list nor the timers and are not steps here.
\<close>

datatype step =
  SocketStep socket_event
| InputStep js_string
| ClickSendStep
| KeyStep bool bool
| TimerStep nat
| BackStep
| LoadMessagesStep nat "contact list" messages_fetch
| LogoutStep

definition apply_step :: "env \<Rightarrow> step \<Rightarrow> app_state \<Rightarrow> app_state" where
  "apply_step E st s =
     (case st of
        SocketStep ev \<Rightarrow> socket_event E ev s
      | InputStep v \<Rightarrow>
          if chat_pane_rendered s \<and> \<not> input_disabled s then handleInputChange E v s else s
      | ClickSendStep \<Rightarrow> click_send E s
      | KeyStep is_enter shift \<Rightarrow> press_key E is_enter shift s
      | TimerStep i \<Rightarrow> fire_timer i s
      | BackStep \<Rightarrow> if chat_pane_rendered s then handleBackToContacts s else s
      | LoadMessagesStep userId seen_users fr \<Rightarrow> loadMessages E userId seen_users fr s
      | LogoutStep \<Rightarrow> if currentUser s \<noteq> None then handleLogout E s else s)"

fun run_steps :: "(env \<times> step) list \<Rightarrow> app_state \<Rightarrow> app_state" where
  "run_steps [] s = s"
| "run_steps ((E, st) # rest) s = run_steps rest (apply_step E st s)"

section \<open>The state of one message\<close>

text \<open>
  Where the message with id \<open>i\<close> stands in the message list: not there, there with the
  \<open>pending\<close> flag, or there with the flag cleared.
\<close>

datatype msg_state = Absent | Pending | Delivered

definition message_state :: "nat \<Rightarrow> app_state \<Rightarrow> msg_state" where
  "message_state i s =
     (case filter (\<lambda>m. msg_id m = i) (messages s) of
        [] \<Rightarrow> Absent
      | m # _ \<Rightarrow> if pending m then Pending else Delivered)"

text \<open>
  A step keeps the conversation of the message with id \<open>i\<close> when it does not replace the
  message list (no back button, no loaded conversation, no confirmed logout), gives the id
  \<open>i\<close> to no other message, and is not the expiry of the timer \<open>own\<close>, if there is one.
\<close>

definition keeps_conversation :: "nat \<Rightarrow> nat option \<Rightarrow> env \<times> step \<Rightarrow> bool" where
  "keeps_conversation i own p =
     (case p of (E, st) \<Rightarrow>
        (case st of
           SocketStep ev \<Rightarrow>
             (case ev of
                MessageEv m \<Rightarrow> msg_id m \<noteq> i
              | ConnectErrorEv err \<Rightarrow> \<not> confirm_answer E
              | _ \<Rightarrow> True)
         | InputStep v \<Rightarrow> True
         | ClickSendStep \<Rightarrow> now E \<noteq> i
         | KeyStep is_enter shift \<Rightarrow> now E \<noteq> i
         | TimerStep t \<Rightarrow> own \<noteq> Some t
         | BackStep \<Rightarrow> False
         | LoadMessagesStep userId seen_users fr \<Rightarrow> False
         | LogoutStep \<Rightarrow> \<not> confirm_answer E))"

text \<open>
  The invariant of such runs: timer ids are below the next id, a delivery timer for \<open>i\<close> can
  only be the timer \<open>own\<close>, and \<open>typingTimeoutRef\<close> does not point at it. A change from \<open>x\<close> to
  \<open>y\<close> is kept when the invariant holds after it and the messages with id \<open>i\<close> and the
  timers with the id \<open>own\<close> are the same.
\<close>

definition id_messages :: "nat \<Rightarrow> app_state \<Rightarrow> message list" where
  "id_messages i x = filter (\<lambda>m. msg_id m = i) (messages x)"

definition id_timers :: "nat \<Rightarrow> app_state \<Rightarrow> timer list" where
  "id_timers t x = filter (\<lambda>tm. timer_id tm = t) (timers x)"

definition lifecycle_inv :: "nat \<Rightarrow> nat option \<Rightarrow> app_state \<Rightarrow> bool" where
  "lifecycle_inv i own x =
     ((\<forall>tm \<in> set (timers x). timer_id tm < next_timer x)
      \<and> (\<forall>tm \<in> set (timers x). callback tm = DeliveredCb i \<longrightarrow> own = Some (timer_id tm))
      \<and> (\<forall>t. own = Some t \<longrightarrow> t < next_timer x \<and> typingTimeoutRef x \<noteq> Some t))"

definition kept :: "nat \<Rightarrow> nat option \<Rightarrow> app_state \<Rightarrow> app_state \<Rightarrow> bool" where
  "kept i own x y =
     (lifecycle_inv i own y \<and> id_messages i y = id_messages i x
      \<and> (\<forall>t. own = Some t \<longrightarrow> id_timers t y = id_timers t x))"

section \<open>Concrete inputs\<close>

definition profile0 :: profile where
  "profile0 = \<lparr>profile_id = 1, profile_username = js ''ann'', profile_email = js ''ann@b.com''\<rparr>"

definition alice :: contact where
  "alice = \<lparr>contact_id = 2, username = js ''alice''\<rparr>"

definition env0 :: env where
  "env0 = \<lparr>JSON_parse = (\<lambda>t. if t = js ''ann-json'' then Inr profile0
                          else Inl \<lparr>err_name = js ''SyntaxError'', err_message = js ''Unexpected token''\<rparr>),
            JSON_stringify = (\<lambda>p. js ''ann-json''),
            toISOString = (\<lambda>n. js ''1970-01-01T00:00:00.000Z''),
            now = 0, confirm_answer = False, document_hidden = True,
            notification = Some PermGranted, io_throws = False, emit_throws = False\<rparr>"

definition stored0 :: app_state where
  "stored0 = \<lparr>ls_token = Some (js ''t1''), ls_userData = Some (js ''ann-json''),
              currentUser = None, users = [], selectedUser = None, messages = [],
              newMessage = [], onlineUsers = {}, connectionStatus = Disconnected,
              typingUsers = {}, isTyping = False, socketRef = None, typingTimeoutRef = None,
              timers = [], next_timer = 0, effects = []\<rparr>"

definition session0 :: app_state where
  "session0 = stored0\<lparr>currentUser := Some profile0, users := [alice], selectedUser := Some alice,
                      socketRef := Some \<lparr>auth_token = js ''t1'', seen_selectedUser = None\<rparr>,
                      onlineUsers := {2}\<rparr>"

definition unauthorized401 :: response where
  "unauthorized401 = \<lparr>status = 401, content_type = Some (js ''application/json; charset=utf-8''),
                      json_body = Inl \<lparr>err_name = js ''SyntaxError'', err_message = js ''Unexpected token''\<rparr>\<rparr>"




definition offline_draft :: app_state where
  "offline_draft = session0\<lparr>newMessage := js '' hi ''\<rparr>"

definition chatting :: app_state where
  "chatting = session0\<lparr>connectionStatus := Connected\<rparr>"

definition typed_twice :: app_state where
  "typed_twice =
     handleInputChange (env0\<lparr>now := 1500\<rparr>) (js ''he'') (handleInputChange env0 (js ''h'') chatting)"

definition auth_error :: js_error where
  "auth_error = \<lparr>err_name = js ''Error'', err_message = js ''unauthorized''\<rparr>"


definition older_message :: message where
  "older_message = \<lparr>msg_id = 7, content = js ''earlier'', sender_id = 2,
                     created_at = js ''2024-01-01T09:00:00.000Z'', isOwn = False, pending = False\<rparr>"

definition draft :: app_state where
  "draft = session0\<lparr>newMessage := js ''hello'', connectionStatus := Connected,
                    messages := [older_message], isTyping := True, typingTimeoutRef := Some 0,
                    timers := [\<lparr>timer_id = 0, deadline = 2000,
                                 callback = TypingStopCb False (Some alice)\<rparr>],
                    next_timer := 1\<rparr>"

definition env1500 :: env where
  "env1500 = env0\<lparr>now := 1500\<rparr>"

definition bob :: contact where
  "bob = \<lparr>contact_id = 3, username = js ''bob''\<rparr>"

definition lobby :: app_state where
  "lobby = session0\<lparr>users := [alice, bob], selectedUser := None, connectionStatus := Connected\<rparr>"

definition long_message :: message where
  "long_message = \<lparr>msg_id = 41, content = replicate 51 (of_char CHR ''x''), sender_id = 3,
                    created_at = js ''2024-01-01T10:00:00.000Z'', isOwn = False, pending = False\<rparr>"

definition atob0 :: "js_string \<Rightarrow> js_error + js_string" where
  "atob0 b = (if b = js ''+/8='' then Inr [0xFB, 0xFF]
              else Inl \<lparr>err_name = js ''InvalidCharacterError'', err_message = js ''not base64''\<rparr>)"

definition before_steps :: "(env \<times> step) list" where
  "before_steps = [(env0, SocketStep (MessageEv long_message)),
                   (env0\<lparr>now := 1700\<rparr>, InputStep (js ''ok''))]"

definition after_steps :: "(env \<times> step) list" where
  "after_steps = [(env0\<lparr>now := 2600\<rparr>, ClickSendStep),
                  (env0\<lparr>now := 2700\<rparr>, SocketStep DisconnectEv)]"

section \<open>Properties of the string helpers\<close>

text \<open>\<open>js_includes\<close> is the contiguous-sublist relation of the list library.\<close>

lemma js_includes_sublist: "js_includes s sub = sublist sub s"
  by (induction s) (auto simp: sublist_Cons_right)

section \<open>Properties of startup validation\<close>

text \<open>What \<open>initializeApp\<close> does once the validation request is known to be refused or accepted.\<close>

lemma validateToken_not_ok:
  "\<not> res_ok r \<Longrightarrow> validateToken E (FetchResponse r) s = (False, s)"
  by (simp add: validateToken_def)

lemma initializeApp_invalid:
  assumes "truthy (ls_token s)" and "truthy (ls_userData s)"
    and "\<And>x. validateToken E fr x = (False, x)"
  shows "initializeApp E fr s = clearAuthData s"
  using assms
  by (simp add: initializeApp_def clearAuthData_def Let_def split: sum.splits)







text \<open>
  Claim C7: at startup with a stored token and cached profile, a validation response with
  status 401 leaves no token, no cached profile and no current user, and the run performs no
  effect at all: in particular \<open>io\<close> is never called and \<open>socketRef\<close> is untouched.
\<close>

theorem validate_401_clears_credential:
  assumes "truthy (ls_token s)" and "truthy (ls_userData s)" and "status r = 401"
  shows "ls_token (initializeApp E (FetchResponse r) s) = None
       \<and> ls_userData (initializeApp E (FetchResponse r) s) = None
       \<and> currentUser (initializeApp E (FetchResponse r) s) = None
       \<and> effects (initializeApp E (FetchResponse r) s) = effects s
       \<and> socketRef (initializeApp E (FetchResponse r) s) = socketRef s"
proof -
  have "\<not> res_ok r"
    using assms(3) by (simp add: res_ok_def)
  then have "initializeApp E (FetchResponse r) s = clearAuthData s"
    using assms(1,2) by (intro initializeApp_invalid) (simp_all add: validateToken_not_ok)
  then show ?thesis
    by (simp add: clearAuthData_def)
qed

theorem validate_401_clears_credential_witness:
  "truthy (ls_token stored0) \<and> truthy (ls_userData stored0) \<and> status unauthorized401 = 401
   \<and> ls_token (initializeApp env0 (FetchResponse unauthorized401) stored0) = None
   \<and> ls_userData (initializeApp env0 (FetchResponse unauthorized401) stored0) = None
   \<and> currentUser (initializeApp env0 (FetchResponse unauthorized401) stored0) = None
   \<and> effects (initializeApp env0 (FetchResponse unauthorized401) stored0) = []
   \<and> socketRef (initializeApp env0 (FetchResponse unauthorized401) stored0) = None"
  using validate_401_clears_credential [of stored0 unauthorized401 env0]
  by (simp add: stored0_def unauthorized401_def truthy_def js_def)

section \<open>Properties of presence\<close>

text \<open>
  Claim C8: after a \<open>user_offline\<close> event for an id, that id is not in the online set
  (whether or not it was there before), handling the same event a second time changes
  nothing, and the online set never gains a member.
\<close>

theorem user_offline_presence:
  "userId \<notin> onlineUsers (on_user_offline userId s)
   \<and> on_user_offline userId (on_user_offline userId s) = on_user_offline userId s
   \<and> onlineUsers (on_user_offline userId s) \<subseteq> onlineUsers s"
  by (auto simp: on_user_offline_def)

theorem user_offline_presence_witness:
  "2 \<in> onlineUsers session0 \<and> 2 \<notin> onlineUsers (on_user_offline 2 session0)
   \<and> on_user_offline 2 (on_user_offline 2 session0) = on_user_offline 2 session0
   \<and> onlineUsers (on_user_offline 2 session0) \<subseteq> onlineUsers session0"
  using user_offline_presence [of 2 session0] by (simp add: session0_def)

section \<open>Properties of sending\<close>

text \<open>
  Claim C2: \<open>sendMessage\<close> is called from two places only, the send button and the key
  handler of the message input, and both elements are disabled unless the status is
  \<open>'connected'\<close>. So whenever the status is not \<open>'connected'\<close>, a send leaves the whole state
  unchanged: no optimistic message is appended and nothing is emitted. An empty trimmed
  content or no selected conversation makes the send a silent no-op as well, in the view and
  in \<open>sendMessage\<close> itself, which also returns when there is no socket object.
\<close>

theorem send_disabled_by_view:
  "(connectionStatus s \<noteq> Connected
      \<longrightarrow> click_send E s = s \<and> press_key E is_enter shift s = s)
   \<and> (trim (newMessage s) = [] \<or> selectedUser s = None \<or> socketRef s = None
      \<longrightarrow> sendMessage E s = s)
   \<and> (trim (newMessage s) = [] \<or> selectedUser s = None
      \<longrightarrow> click_send E s = s \<and> press_key E is_enter shift s = s)"
  by (auto simp: click_send_def press_key_def handleKeyPress_def chat_pane_rendered_def
        send_button_disabled_def input_disabled_def sendMessage_def Let_def split: option.splits)

theorem send_disabled_by_view_witness:
  "connectionStatus offline_draft \<noteq> Connected
   \<and> trim (newMessage offline_draft) \<noteq> []
   \<and> click_send env0 offline_draft = offline_draft
   \<and> press_key env0 True False offline_draft = offline_draft
   \<and> messages (click_send env0 offline_draft) = [] \<and> effects (click_send env0 offline_draft) = []
   \<and> connectionStatus chatting = Connected \<and> trim (newMessage chatting) = []
   \<and> sendMessage env0 chatting = chatting
   \<and> click_send env0 chatting = chatting
   \<and> press_key env0 True False chatting = chatting"
  using send_disabled_by_view [of offline_draft env0 True False]
    send_disabled_by_view [of chatting env0 True False]
  by (simp add: offline_draft_def chatting_def session0_def stored0_def trim_def
        is_whitespace_def js_def)

text \<open>
  Steps that keep a conversation preserve the invariant, the messages with the id and the
  message's own timer; the lemmas follow the calls of the handlers.
\<close>

lemma filter_filter_keep:
  "(\<And>x. P x \<Longrightarrow> Q x) \<Longrightarrow> filter P (filter Q xs) = filter P xs"
  by (induction xs) auto

lemma filter_map_keep:
  "(\<And>x. P (g x) = P x) \<Longrightarrow> (\<And>x. P x \<Longrightarrow> g x = x) \<Longrightarrow> filter P (map g xs) = filter P xs"
  by (induction xs) auto

lemma kept_refl: "lifecycle_inv i own x \<Longrightarrow> kept i own x x"
  by (simp add: kept_def)

lemma kept_trans: "kept i own x y \<Longrightarrow> kept i own y z \<Longrightarrow> kept i own x z"
  by (simp add: kept_def)

lemma kept_inv: "kept i own x y \<Longrightarrow> lifecycle_inv i own y"
  by (simp add: kept_def)

lemma kept_messages:
  assumes "lifecycle_inv i own x" and "timers y = timers x" and "next_timer y = next_timer x"
    and "typingTimeoutRef y = typingTimeoutRef x"
    and "filter (\<lambda>m. msg_id m = i) (messages y) = filter (\<lambda>m. msg_id m = i) (messages x)"
  shows "kept i own x y"
  using assms by (simp add: kept_def lifecycle_inv_def id_messages_def id_timers_def)

lemma kept_core:
  assumes "lifecycle_inv i own x" and "messages y = messages x" and "timers y = timers x"
    and "next_timer y = next_timer x" and "typingTimeoutRef y = typingTimeoutRef x"
  shows "kept i own x y"
  using assms by (intro kept_messages) simp_all

lemma kept_add_effect: "lifecycle_inv i own x \<Longrightarrow> kept i own x (add_effect e x)"
  by (rule kept_core) (simp_all add: add_effect_def)

lemma kept_clearTimeout:
  assumes "lifecycle_inv i own x" and "\<And>t. own = Some t \<Longrightarrow> r \<noteq> Some t"
  shows "kept i own x (clearTimeout r x)"
proof (cases r)
  case None
  then show ?thesis using assms(1) by (simp add: clearTimeout_def kept_refl)
next
  case (Some a)
  have keep: "filter (\<lambda>tm. timer_id tm = t) (filter (\<lambda>tm. timer_id tm \<noteq> a) (timers x)) =
      filter (\<lambda>tm. timer_id tm = t) (timers x)" if "own = Some t" for t
  proof (rule filter_filter_keep)
    fix tm :: timer
    assume "timer_id tm = t"
    moreover have "a \<noteq> t" using assms(2) [OF that] Some by simp
    ultimately show "timer_id tm \<noteq> a" by simp
  qed
  show ?thesis
    using assms(1) keep
    by (simp add: Some clearTimeout_def kept_def lifecycle_inv_def id_messages_def id_timers_def)
qed

lemma setTimeout_fst: "fst (setTimeout cb d t x) = next_timer x"
  by (simp add: setTimeout_def)

lemma kept_setTimeout:
  assumes "lifecycle_inv i own x" and "cb \<noteq> DeliveredCb i"
  shows "kept i own x (snd (setTimeout cb d t x))"
proof -
  have "\<forall>tm \<in> set (timers x). timer_id tm < Suc (next_timer x)"
    using assms(1) by (simp add: lifecycle_inv_def less_Suc_eq)
  moreover have "\<forall>t'. own = Some t' \<longrightarrow> t' < Suc (next_timer x) \<and> next_timer x \<noteq> t'
      \<and> typingTimeoutRef x \<noteq> Some t'"
    using assms(1) by (simp add: lifecycle_inv_def less_Suc_eq) blast
  ultimately show ?thesis
    using assms
    by (simp add: setTimeout_def kept_def lifecycle_inv_def id_messages_def id_timers_def)
qed

lemma kept_set_ref:
  assumes "lifecycle_inv i own x" and "\<And>t. own = Some t \<Longrightarrow> t \<noteq> r"
  shows "kept i own x (x\<lparr>typingTimeoutRef := Some r\<rparr>)"
  using assms
  by (simp add: kept_def lifecycle_inv_def id_messages_def id_timers_def) blast


lemma kept_handleTypingStop_in:
  assumes "lifecycle_inv i own x"
  shows "kept i own x (handleTypingStop_in it sel x)"
proof (cases "sel = None \<or> socketRef x = None \<or> \<not> it")
  case True
  then have "handleTypingStop_in it sel x = x"
    by (auto simp: handleTypingStop_in_def split: option.splits)
  then show ?thesis using assms by (simp add: kept_refl)
next
  case False
  then obtain u where sel: "sel = Some u" by auto
  let ?y = "add_effect (Emit (TypingStopOut (contact_id u))) (x\<lparr>isTyping := False\<rparr>)"
  obtain sock where sock: "socketRef x = Some sock" using False by auto
  have eq: "handleTypingStop_in it sel x = clearTimeout (typingTimeoutRef ?y) ?y"
    using False sel sock by (simp add: handleTypingStop_in_def add_effect_def)
  have xy: "kept i own x ?y"
    using assms by (rule kept_core) (simp_all add: add_effect_def)
  have "kept i own ?y (clearTimeout (typingTimeoutRef ?y) ?y)"
  proof (rule kept_clearTimeout [OF kept_inv [OF xy]])
    fix t assume "own = Some t"
    then show "typingTimeoutRef ?y \<noteq> Some t"
      using kept_inv [OF xy] by (simp add: lifecycle_inv_def)
  qed
  with xy show ?thesis unfolding eq by (rule kept_trans)
qed

lemma kept_handleTypingStop:
  "lifecycle_inv i own x \<Longrightarrow> kept i own x (handleTypingStop x)"
  unfolding handleTypingStop_def by (rule kept_handleTypingStop_in)

lemma kept_handleTypingStart:
  assumes "lifecycle_inv i own x"
  shows "kept i own x (handleTypingStart E x)"
proof (cases "selectedUser x = None \<or> socketRef x = None \<or> isTyping x")
  case True
  then have "handleTypingStart E x = x"
    by (auto simp: handleTypingStart_def split: option.splits)
  then show ?thesis using assms by (simp add: kept_refl)
next
  case False
  then obtain u where sel: "selectedUser x = Some u" by auto
  let ?y1 = "add_effect (Emit (TypingStartOut (contact_id u))) (x\<lparr>isTyping := True\<rparr>)"
  let ?y2 = "clearTimeout (typingTimeoutRef ?y1) ?y1"
  let ?y3 = "snd (setTimeout (TypingStopCb (isTyping x) (selectedUser x)) 2000 (now E) ?y2)"
  obtain sock where sock: "socketRef x = Some sock" using False by auto
  have eq: "handleTypingStart E x = ?y3\<lparr>typingTimeoutRef := Some (next_timer ?y2)\<rparr>"
    using False sel sock
    by (simp add: handleTypingStart_def Let_def split_def setTimeout_fst add_effect_def)
  have k1: "kept i own x ?y1"
    using assms by (rule kept_core) (simp_all add: add_effect_def)
  have k2: "kept i own ?y1 ?y2"
  proof (rule kept_clearTimeout [OF kept_inv [OF k1]])
    fix t assume "own = Some t"
    then show "typingTimeoutRef ?y1 \<noteq> Some t"
      using kept_inv [OF k1] by (simp add: lifecycle_inv_def)
  qed
  have k3: "kept i own ?y2 ?y3"
    by (rule kept_setTimeout [OF kept_inv [OF k2]]) simp
  have k4: "kept i own ?y3 (?y3\<lparr>typingTimeoutRef := Some (next_timer ?y2)\<rparr>)"
  proof (rule kept_set_ref [OF kept_inv [OF k3]])
    fix t assume "own = Some t"
    then have "t < next_timer ?y2"
      using kept_inv [OF k2] by (simp add: lifecycle_inv_def)
    then show "t \<noteq> next_timer ?y2" by simp
  qed
  show ?thesis
    unfolding eq by (rule kept_trans [OF kept_trans [OF kept_trans [OF k1 k2] k3] k4])
qed

lemma kept_handleInputChange:
  assumes "lifecycle_inv i own x"
  shows "kept i own x (handleInputChange E v x)"
proof -
  let ?y = "x\<lparr>newMessage := v\<rparr>"
  have k: "kept i own x ?y"
    using assms by (rule kept_core) simp_all
  have "kept i own ?y (handleInputChange E v x)"
    using kept_handleTypingStart [OF kept_inv [OF k], of E] kept_handleTypingStop [OF kept_inv [OF k]]
    by (simp add: handleInputChange_def Let_def)
  with k show ?thesis by (rule kept_trans)
qed


lemma kept_sendMessage:
  assumes "lifecycle_inv i own x" and "now E \<noteq> i"
  shows "kept i own x (sendMessage E x)"
proof (cases "selectedUser x = None \<or> trim (newMessage x) = [] \<or> socketRef x = None")
  case True
  then have "sendMessage E x = x"
    by (auto simp: sendMessage_def Let_def split: option.splits)
  then show ?thesis using assms(1) by (simp add: kept_refl)
next
  case False
  then obtain u sock where sel: "selectedUser x = Some u" and sock: "socketRef x = Some sock"
    and c: "trim (newMessage x) \<noteq> []" by auto
  let ?y1 = "handleTypingStop x"
  have k1: "kept i own x ?y1"
    by (rule kept_handleTypingStop [OF assms(1)])
  show ?thesis
  proof (cases "currentUser ?y1")
    case None
    then have eq: "sendMessage E x = add_effect UnhandledRejection ?y1"
      using sel sock c by (simp add: sendMessage_def Let_def)
    show ?thesis
      unfolding eq by (rule kept_trans [OF k1 kept_add_effect [OF kept_inv [OF k1]]])
  next
    case (Some cu)
    let ?m = "\<lparr>msg_id = now E, content = trim (newMessage x), sender_id = profile_id cu,
               created_at = toISOString E (now E), isOwn = True, pending = True\<rparr>"
    let ?y2 = "?y1\<lparr>messages := messages ?y1 @ [?m], newMessage := []\<rparr>"
    have k2: "kept i own ?y1 ?y2"
      using assms(2) by (intro kept_messages [OF kept_inv [OF k1]]) simp_all
    show ?thesis
    proof (cases "emit_throws E")
      case True
      let ?y3 = "?y2\<lparr>messages := filter (\<lambda>msg. msg_id msg \<noteq> now E) (messages ?y2)\<rparr>"
      have eq: "sendMessage E x =
          add_effect (Alert (js ''Failed to send message. Please try again.'')) ?y3"
        using sel sock c Some True by (simp add: sendMessage_def Let_def)
      have "filter (\<lambda>m. msg_id m = i) (filter (\<lambda>msg. msg_id msg \<noteq> now E) (messages ?y2)) =
          filter (\<lambda>m. msg_id m = i) (messages ?y2)"
        using assms(2) by (intro filter_filter_keep) simp
      then have k3: "kept i own ?y2 ?y3"
        by (intro kept_messages [OF kept_inv [OF k2]]) simp_all
      show ?thesis
        unfolding eq
        by (rule kept_trans [OF kept_trans [OF kept_trans [OF k1 k2] k3]
              kept_add_effect [OF kept_inv [OF k3]]])
    next
      case False
      let ?y3 = "add_effect (Emit (SendMessageOut (contact_id u) (trim (newMessage x)))) ?y2"
      have eq: "sendMessage E x = snd (setTimeout (DeliveredCb (now E)) 1000 (now E) ?y3)"
        using sel sock c Some False by (simp add: sendMessage_def Let_def)
      have k3: "kept i own ?y2 ?y3"
        by (rule kept_add_effect [OF kept_inv [OF k2]])
      have k4: "kept i own ?y3 (snd (setTimeout (DeliveredCb (now E)) 1000 (now E) ?y3))"
        using assms(2) by (intro kept_setTimeout [OF kept_inv [OF k3]]) simp
      show ?thesis
        unfolding eq by (rule kept_trans [OF kept_trans [OF kept_trans [OF k1 k2] k3] k4])
    qed
  qed
qed

lemma kept_run_callback:
  assumes "lifecycle_inv i own x" and "cb \<noteq> DeliveredCb i"
  shows "kept i own x (run_callback cb x)"
proof (cases cb)
  case (TypingStopCb it sel)
  then show ?thesis
    using kept_handleTypingStop_in [OF assms(1)] by (simp add: run_callback_def)
next
  case (DeliveredCb j)
  then have j: "j \<noteq> i" using assms(2) by simp
  have "filter (\<lambda>m. msg_id m = i)
          (map (\<lambda>m. if msg_id m = j then m\<lparr>pending := False\<rparr> else m) (messages x)) =
        filter (\<lambda>m. msg_id m = i) (messages x)"
    using j by (intro filter_map_keep) simp_all
  then show ?thesis
    unfolding DeliveredCb run_callback_def
    by (intro kept_messages [OF assms(1)]) simp_all
qed

lemma kept_fire_timer:
  assumes "lifecycle_inv i own x" and "own \<noteq> Some t"
  shows "kept i own x (fire_timer t x)"
proof (cases "find (\<lambda>tm. timer_id tm = t) (timers x)")
  case None
  then show ?thesis using assms(1) by (simp add: fire_timer_def kept_refl)
next
  case (Some tm)
  then have tm: "tm \<in> set (timers x)" "timer_id tm = t"
    by (auto simp: find_Some_iff)
  have cb: "callback tm \<noteq> DeliveredCb i"
    using assms tm by (auto simp: lifecycle_inv_def)
  have eq: "fire_timer t x = run_callback (callback tm) (clearTimeout (Some t) x)"
    using Some by (simp add: fire_timer_def clearTimeout_def)
  have k1: "kept i own x (clearTimeout (Some t) x)"
    using assms(2) by (intro kept_clearTimeout [OF assms(1)]) simp
  show ?thesis
    unfolding eq by (rule kept_trans [OF k1 kept_run_callback [OF kept_inv [OF k1] cb]])
qed

lemma kept_handleLogout_cancelled:
  "lifecycle_inv i own x \<Longrightarrow> \<not> confirm_answer E \<Longrightarrow> kept i own x (handleLogout E x)"
  by (simp add: handleLogout_def Let_def kept_add_effect)


lemma kept_on_message:
  assumes "lifecycle_inv i own x" and "msg_id m \<noteq> i"
  shows "kept i own x (on_message E sel m x)"
proof -
  let ?y = "x\<lparr>messages := messages x @ [m\<lparr>isOwn := False\<rparr>]\<rparr>"
  have k: "kept i own x ?y"
    using assms(2) by (intro kept_messages [OF assms(1)]) simp_all
  show ?thesis
  proof (cases "document_hidden E \<and> notification E = Some PermGranted")
    case True
    then have eq: "on_message E sel m x =
        add_effect (ShowNotification (notification_title sel) (notification_body (content m))) ?y"
      by (simp add: on_message_def Let_def)
    show ?thesis
      unfolding eq by (rule kept_trans [OF k kept_add_effect [OF kept_inv [OF k]]])
  next
    case False
    then have "on_message E sel m x = ?y"
      by (cases "document_hidden E") (simp_all add: on_message_def Let_def)
    then show ?thesis using k by simp
  qed
qed

lemma kept_on_connect_error:
  assumes "lifecycle_inv i own x" and "\<not> confirm_answer E"
  shows "kept i own x (on_connect_error E err x)"
proof -
  let ?y = "x\<lparr>connectionStatus := ConnError\<rparr>"
  have k: "kept i own x ?y"
    by (rule kept_core [OF assms(1)]) simp_all
  show ?thesis
  proof (cases "js_includes (err_message err) (js ''auth'') \<or> js_includes (err_message err) (js ''401'')")
    case True
    then have eq: "on_connect_error E err x =
        add_effect (Alert (js ''Session expired. Please login again.'')) (handleLogout E ?y)"
      by (simp add: on_connect_error_def Let_def)
    have k2: "kept i own ?y (handleLogout E ?y)"
      by (rule kept_handleLogout_cancelled [OF kept_inv [OF k] assms(2)])
    show ?thesis
      unfolding eq
      by (rule kept_trans [OF kept_trans [OF k k2] kept_add_effect [OF kept_inv [OF k2]]])
  next
    case False
    then have "on_connect_error E err x = ?y"
      by (simp add: on_connect_error_def Let_def)
    then show ?thesis using k by simp
  qed
qed

lemma kept_socket_event:
  assumes "lifecycle_inv i own x" and "keeps_conversation i own (E, SocketStep ev)"
  shows "kept i own x (socket_event E ev x)"
proof (cases "socketRef x")
  case None
  then show ?thesis using assms(1) by (simp add: socket_event_def kept_refl)
next
  case (Some sock)
  show ?thesis
  proof (cases ev)
    case ConnectEv
    show ?thesis
      unfolding ConnectEv by (rule kept_core [OF assms(1)]) (simp_all add: socket_event_def Some on_connect_def)
  next
    case DisconnectEv
    show ?thesis
      unfolding DisconnectEv
      by (rule kept_core [OF assms(1)]) (simp_all add: socket_event_def Some on_disconnect_def)
  next
    case (ConnectErrorEv err)
    then have "\<not> confirm_answer E"
      using assms(2) by (simp add: keeps_conversation_def)
    then show ?thesis
      using kept_on_connect_error [OF assms(1), of E err]
      by (simp add: ConnectErrorEv socket_event_def Some)
  next
    case (ReconnectAttemptEv n)
    show ?thesis
      unfolding ReconnectAttemptEv
      by (rule kept_core [OF assms(1)]) (simp_all add: socket_event_def Some on_reconnect_attempt_def)
  next
    case ReconnectFailedEv
    show ?thesis
      unfolding ReconnectFailedEv
      by (rule kept_core [OF assms(1)])
        (simp_all add: socket_event_def Some on_reconnect_failed_def add_effect_def)
  next
    case (MessageEv m)
    then have "msg_id m \<noteq> i"
      using assms(2) by (simp add: keeps_conversation_def)
    then show ?thesis
      using kept_on_message [OF assms(1), of m E "seen_selectedUser sock"]
      by (simp add: MessageEv socket_event_def Some)
  next
    case (UserOnlineEv u)
    show ?thesis
      unfolding UserOnlineEv
      by (rule kept_core [OF assms(1)]) (simp_all add: socket_event_def Some on_user_online_def)
  next
    case (UserOfflineEv u)
    show ?thesis
      unfolding UserOfflineEv
      by (rule kept_core [OF assms(1)]) (simp_all add: socket_event_def Some on_user_offline_def)
  next
    case (TypingStartEv u)
    show ?thesis
      unfolding TypingStartEv
      by (rule kept_core [OF assms(1)]) (simp_all add: socket_event_def Some on_typing_start_def)
  next
    case (TypingStopEv u)
    show ?thesis
      unfolding TypingStopEv
      by (rule kept_core [OF assms(1)]) (simp_all add: socket_event_def Some on_typing_stop_def)
  next
    case MessageDeliveredEv
    show ?thesis
      unfolding MessageDeliveredEv
      by (rule kept_core [OF assms(1)]) (simp_all add: socket_event_def Some)
  next
    case (ErrorEv msg)
    show ?thesis
      unfolding ErrorEv
      by (rule kept_core [OF assms(1)])
        (simp_all add: socket_event_def Some on_error_def add_effect_def)
  qed
qed

lemma kept_apply_step:
  assumes "lifecycle_inv i own x" and "keeps_conversation i own (E, st)"
  shows "kept i own x (apply_step E st x)"
proof (cases st)
  case (SocketStep ev)
  then show ?thesis
    using kept_socket_event [OF assms(1), of E ev] assms(2) by (simp add: apply_step_def)
next
  case (InputStep v)
  then show ?thesis
    using kept_handleInputChange [OF assms(1), of E v] kept_refl [OF assms(1)]
    by (simp add: apply_step_def)
next
  case ClickSendStep
  then have "now E \<noteq> i" using assms(2) by (simp add: keeps_conversation_def)
  then show ?thesis
    using kept_sendMessage [OF assms(1), of E] kept_refl [OF assms(1)]
    by (simp add: ClickSendStep apply_step_def click_send_def)
next
  case (KeyStep is_enter shift)
  then have "now E \<noteq> i" using assms(2) by (simp add: keeps_conversation_def)
  then show ?thesis
    using kept_sendMessage [OF assms(1), of E] kept_refl [OF assms(1)]
    by (simp add: KeyStep apply_step_def press_key_def handleKeyPress_def)
next
  case (TimerStep t)
  then have "own \<noteq> Some t" using assms(2) by (simp add: keeps_conversation_def)
  then show ?thesis
    using kept_fire_timer [OF assms(1), of t] by (simp add: TimerStep apply_step_def)
next
  case BackStep
  then show ?thesis using assms(2) by (simp add: keeps_conversation_def)
next
  case (LoadMessagesStep userId seen_users fr)
  then show ?thesis using assms(2) by (simp add: keeps_conversation_def)
next
  case LogoutStep
  then have "\<not> confirm_answer E" using assms(2) by (simp add: keeps_conversation_def)
  then show ?thesis
    using kept_handleLogout_cancelled [OF assms(1), of E] kept_refl [OF assms(1)]
    by (simp add: LogoutStep apply_step_def)
qed

lemma kept_run_steps:
  "lifecycle_inv i own x \<Longrightarrow> list_all (keeps_conversation i own) sts \<Longrightarrow>
   kept i own x (run_steps sts x)"
proof (induction sts arbitrary: x)
  case Nil
  then show ?case by (simp add: kept_refl)
next
  case (Cons p sts)
  obtain E st where p: "p = (E, st)" by (cases p)
  have k1: "kept i own x (apply_step E st x)"
    using Cons.prems by (intro kept_apply_step) (simp_all add: p)
  have k2: "kept i own (apply_step E st x) (run_steps sts (apply_step E st x))"
    using Cons.prems by (intro Cons.IH [OF kept_inv [OF k1]]) simp
  show ?case
    unfolding p run_steps.simps by (rule kept_trans [OF k1 k2])
qed


lemma handleTypingStop_timers:
  "messages (handleTypingStop s) = messages s
   \<and> currentUser (handleTypingStop s) = currentUser s
   \<and> newMessage (handleTypingStop s) = newMessage s
   \<and> next_timer (handleTypingStop s) = next_timer s
   \<and> typingTimeoutRef (handleTypingStop s) = typingTimeoutRef s
   \<and> set (timers (handleTypingStop s)) \<subseteq> set (timers s)"
  by (simp add: handleTypingStop_def handleTypingStop_in_def clearTimeout_def add_effect_def
           split: option.splits)

lemma sendMessage_failed_state:
  assumes "trim (newMessage s) \<noteq> []" and "selectedUser s = Some u" and "socketRef s \<noteq> None"
    and "currentUser s = Some cu" and "emit_throws E"
  shows "messages (sendMessage E s) = filter (\<lambda>m. msg_id m \<noteq> now E) (messages s)
       \<and> timers (sendMessage E s) = timers (handleTypingStop s)
       \<and> next_timer (sendMessage E s) = next_timer s"
proof -
  obtain sock where "socketRef s = Some sock"
    using assms(3) by (cases "socketRef s") simp_all
  then show ?thesis
    using assms handleTypingStop_timers [of s]
    by (simp add: sendMessage_def Let_def add_effect_def)
qed

lemma sendMessage_emitted_state:
  assumes "trim (newMessage s) \<noteq> []" and "selectedUser s = Some u" and "socketRef s \<noteq> None"
    and "currentUser s = Some cu" and "\<not> emit_throws E"
  shows "messages (sendMessage E s) =
           messages s @ [\<lparr>msg_id = now E, content = trim (newMessage s), sender_id = profile_id cu,
                          created_at = toISOString E (now E), isOwn = True, pending = True\<rparr>]
       \<and> timers (sendMessage E s) =
           timers (handleTypingStop s) @
             [\<lparr>timer_id = next_timer s, deadline = now E + 1000, callback = DeliveredCb (now E)\<rparr>]
       \<and> next_timer (sendMessage E s) = Suc (next_timer s)
       \<and> typingTimeoutRef (sendMessage E s) = typingTimeoutRef s"
proof -
  obtain sock where "socketRef s = Some sock"
    using assms(3) by (cases "socketRef s") simp_all
  then show ?thesis
    using assms handleTypingStop_timers [of s]
    by (simp add: sendMessage_def Let_def add_effect_def setTimeout_def)
qed

lemma find_first_of_filter:
  "filter P xs = y # ys \<Longrightarrow> find P xs = Some y"
  by (induction xs) (auto split: if_splits)

lemma message_state_id_messages:
  "message_state i x = (case id_messages i x of [] \<Rightarrow> Absent
                        | m # _ \<Rightarrow> if pending m then Pending else Delivered)"
  by (simp add: message_state_def id_messages_def)


lemma emitted_lifecycle:
  assumes guard: "trim (newMessage s) \<noteq> []" "selectedUser s = Some u" "socketRef s \<noteq> None"
      "currentUser s = Some cu"
    and ok: "\<not> emit_throws E"
    and fresh: "\<forall>m \<in> set (messages s). msg_id m \<noteq> now E"
    and ids: "\<forall>tm \<in> set (timers s). timer_id tm < next_timer s"
    and ref: "\<forall>r. typingTimeoutRef s = Some r \<longrightarrow> r < next_timer s"
    and idle: "\<forall>tm \<in> set (timers s). callback tm \<noteq> DeliveredCb (now E)"
  shows "lifecycle_inv (now E) (Some (next_timer s)) (sendMessage E s)
       \<and> id_messages (now E) (sendMessage E s) =
           [\<lparr>msg_id = now E, content = trim (newMessage s), sender_id = profile_id cu,
             created_at = toISOString E (now E), isOwn = True, pending = True\<rparr>]
       \<and> id_timers (next_timer s) (sendMessage E s) =
           [\<lparr>timer_id = next_timer s, deadline = now E + 1000, callback = DeliveredCb (now E)\<rparr>]"
proof -
  let ?ts = "timers (handleTypingStop s)"
  note st = sendMessage_emitted_state [OF guard ok]
  have sub: "set ?ts \<subseteq> set (timers s)"
    using handleTypingStop_timers [of s] by simp
  have old_ids: "\<forall>tm \<in> set ?ts. timer_id tm < next_timer s"
    using sub ids by blast
  have old_cb: "\<forall>tm \<in> set ?ts. callback tm \<noteq> DeliveredCb (now E)"
    using sub idle by blast
  have "filter (\<lambda>m. msg_id m = now E) (messages s) = []"
    using fresh by (simp add: filter_empty_conv)
  then have msgs: "id_messages (now E) (sendMessage E s) =
      [\<lparr>msg_id = now E, content = trim (newMessage s), sender_id = profile_id cu,
        created_at = toISOString E (now E), isOwn = True, pending = True\<rparr>]"
    using st by (simp add: id_messages_def)
  have "filter (\<lambda>tm. timer_id tm = next_timer s) ?ts = []"
    using old_ids by (simp add: filter_empty_conv) fastforce
  then have tms: "id_timers (next_timer s) (sendMessage E s) =
      [\<lparr>timer_id = next_timer s, deadline = now E + 1000, callback = DeliveredCb (now E)\<rparr>]"
    using st by (simp add: id_timers_def)
  have inv: "lifecycle_inv (now E) (Some (next_timer s)) (sendMessage E s)"
    unfolding lifecycle_inv_def
  proof (intro conjI)
    show "\<forall>tm \<in> set (timers (sendMessage E s)). timer_id tm < next_timer (sendMessage E s)"
      using st old_ids by (simp add: less_Suc_eq)
    show "\<forall>tm \<in> set (timers (sendMessage E s)).
        callback tm = DeliveredCb (now E) \<longrightarrow> Some (next_timer s) = Some (timer_id tm)"
      using st old_cb by simp
    show "\<forall>t. Some (next_timer s) = Some t \<longrightarrow>
        t < next_timer (sendMessage E s) \<and> typingTimeoutRef (sendMessage E s) \<noteq> Some t"
      using st ref by auto
  qed
  from inv msgs tms show ?thesis by simp
qed

lemma delivered_after_fire:
  assumes inv: "lifecycle_inv i (Some t) x"
    and msgs: "id_messages i x = [m]"
    and tms: "id_timers t x = [\<lparr>timer_id = t, deadline = d, callback = DeliveredCb i\<rparr>]"
  shows "lifecycle_inv i None (fire_timer t x) \<and> id_messages i (fire_timer t x) = [m\<lparr>pending := False\<rparr>]"
proof -
  let ?t0 = "\<lparr>timer_id = t, deadline = d, callback = DeliveredCb i\<rparr>"
  let ?rest = "filter (\<lambda>tm. timer_id tm \<noteq> t) (timers x)"
  have "find (\<lambda>tm. timer_id tm = t) (timers x) = Some ?t0"
    using tms by (intro find_first_of_filter [of _ _ _ "[]"]) (simp add: id_timers_def)
  then have eq: "fire_timer t x = run_callback (DeliveredCb i) (x\<lparr>timers := ?rest\<rparr>)"
    by (simp add: fire_timer_def)
  have m: "msg_id m = i"
  proof -
    have "m \<in> set (filter (\<lambda>m. msg_id m = i) (messages x))"
      using msgs by (simp add: id_messages_def)
    then show ?thesis by simp
  qed
  have "filter (\<lambda>m. msg_id m = i)
          (map (\<lambda>m. if msg_id m = i then m\<lparr>pending := False\<rparr> else m) (messages x)) =
        map (\<lambda>m. if msg_id m = i then m\<lparr>pending := False\<rparr> else m)
          (filter (\<lambda>m. msg_id m = i) (messages x))"
    by (induction "messages x") (simp_all add: filter_map comp_def)
  then have delivered: "id_messages i (fire_timer t x) = [m\<lparr>pending := False\<rparr>]"
    using msgs m unfolding eq by (simp add: run_callback_def id_messages_def)
  have inv': "lifecycle_inv i None (fire_timer t x)"
    unfolding eq lifecycle_inv_def
  proof (intro conjI)
    show "\<forall>tm \<in> set (timers (run_callback (DeliveredCb i) (x\<lparr>timers := ?rest\<rparr>))).
        timer_id tm < next_timer (run_callback (DeliveredCb i) (x\<lparr>timers := ?rest\<rparr>))"
      using inv by (simp add: run_callback_def lifecycle_inv_def)
    show "\<forall>tm \<in> set (timers (run_callback (DeliveredCb i) (x\<lparr>timers := ?rest\<rparr>))).
        callback tm = DeliveredCb i \<longrightarrow> None = Some (timer_id tm)"
      using inv by (simp add: run_callback_def lifecycle_inv_def) blast
    show "\<forall>t'. None = Some t' \<longrightarrow>
        t' < next_timer (run_callback (DeliveredCb i) (x\<lparr>timers := ?rest\<rparr>))
        \<and> typingTimeoutRef (run_callback (DeliveredCb i) (x\<lparr>timers := ?rest\<rparr>)) \<noteq> Some t'"
      by simp
  qed
  from inv' delivered show ?thesis by simp
qed

lemma failed_lifecycle:
  assumes guard: "trim (newMessage s) \<noteq> []" "selectedUser s = Some u" "socketRef s \<noteq> None"
      "currentUser s = Some cu"
    and thr: "emit_throws E"
    and ids: "\<forall>tm \<in> set (timers s). timer_id tm < next_timer s"
    and idle: "\<forall>tm \<in> set (timers s). callback tm \<noteq> DeliveredCb (now E)"
  shows "lifecycle_inv (now E) None (sendMessage E s) \<and> id_messages (now E) (sendMessage E s) = []"
proof -
  note st = sendMessage_failed_state [OF guard thr]
  have sub: "set (timers (handleTypingStop s)) \<subseteq> set (timers s)"
    using handleTypingStop_timers [of s] by simp
  have "lifecycle_inv (now E) None (sendMessage E s)"
    using st sub ids idle by (simp add: lifecycle_inv_def) blast
  moreover have "id_messages (now E) (sendMessage E s) = []"
    using st by (simp add: id_messages_def filter_empty_conv)
  ultimately show ?thesis by simp
qed

text \<open>
  Claim C6, as the spec states it, does not hold: the message list belongs to the open
  conversation and is replaced when the user leaves it. After a send whose \<open>emit\<close> succeeded
  (no failure alert), the back button empties the list, so the optimistic message is gone
  without a send failure and its timer then marks nothing; and when the timer fires first,
  the message is marked delivered and the back button removes it afterwards.
\<close>

theorem optimistic_message_dropped_by_back:
  "message_state 1500 (click_send env1500 draft) = Pending
   \<and> effects (click_send env1500 draft) =
       [Emit (TypingStopOut 2), Emit (SendMessageOut 2 (js ''hello''))]
   \<and> timers (click_send env1500 draft) =
       [\<lparr>timer_id = 1, deadline = 2500, callback = DeliveredCb 1500\<rparr>]
   \<and> message_state 1500 (run_steps [(env0, BackStep)] (click_send env1500 draft)) = Absent
   \<and> message_state 1500
         (run_steps [(env0, BackStep), (env0, TimerStep 1)] (click_send env1500 draft)) = Absent
   \<and> effects (run_steps [(env0, BackStep), (env0, TimerStep 1)] (click_send env1500 draft)) =
       [Emit (TypingStopOut 2), Emit (SendMessageOut 2 (js ''hello''))]
   \<and> message_state 1500 (run_steps [(env0, TimerStep 1)] (click_send env1500 draft)) = Delivered
   \<and> message_state 1500
         (run_steps [(env0, TimerStep 1), (env0, BackStep)] (click_send env1500 draft)) = Absent"
  by (simp add: message_state_def apply_step_def click_send_def chat_pane_rendered_def
        send_button_disabled_def handleBackToContacts_def fire_timer_def run_callback_def
        draft_def older_message_def env1500_def session0_def stored0_def env0_def
        sendMessage_def handleTypingStop_def handleTypingStop_in_def setTimeout_def
        clearTimeout_def add_effect_def trim_def is_whitespace_def js_def profile0_def
        alice_def Let_def)

text \<open>
  Claim C6, amended: take a send whose guard passes, with a provisional id that no message
  and no pending delivery timer uses, and any run of further steps that keep the
  conversation (no back button, no loaded conversation, no confirmed logout, no other message
  with the same id). If \<open>emit\<close> returns, the optimistic message is pending after the send and
  stays pending, with its delivery timer due one second after the send, until that timer
  fires; from then on it is in the list with \<open>pending\<close> cleared and is never removed. If
  \<open>emit\<close> throws, the message is removed at once, stays absent, and no delivery timer for its
  id ever exists, so it is never marked delivered.
\<close>

theorem optimistic_message_lifecycle:
  assumes guard: "trim (newMessage s) \<noteq> []" "selectedUser s = Some u" "socketRef s \<noteq> None"
      "currentUser s = Some cu"
    and fresh: "\<forall>m \<in> set (messages s). msg_id m \<noteq> now E"
    and ids: "\<forall>tm \<in> set (timers s). timer_id tm < next_timer s"
    and ref: "\<forall>r. typingTimeoutRef s = Some r \<longrightarrow> r < next_timer s"
    and idle: "\<forall>tm \<in> set (timers s). callback tm \<noteq> DeliveredCb (now E)"
    and before: "list_all (keeps_conversation (now E) (Some (next_timer s))) before"
    and after: "list_all (keeps_conversation (now E) None) after"
  shows "(\<not> emit_throws E \<longrightarrow>
            message_state (now E) (sendMessage E s) = Pending
          \<and> message_state (now E) (run_steps before (sendMessage E s)) = Pending
          \<and> map deadline (filter (\<lambda>tm. timer_id tm = next_timer s)
                             (timers (run_steps before (sendMessage E s)))) = [now E + 1000]
          \<and> message_state (now E)
                (run_steps after (fire_timer (next_timer s) (run_steps before (sendMessage E s))))
              = Delivered)
       \<and> (emit_throws E \<longrightarrow>
            message_state (now E) (sendMessage E s) = Absent
          \<and> message_state (now E) (run_steps after (sendMessage E s)) = Absent
          \<and> filter (\<lambda>tm. callback tm = DeliveredCb (now E))
               (timers (run_steps after (sendMessage E s))) = [])"
proof (intro conjI impI)
  assume ok: "\<not> emit_throws E"
  let ?m = "\<lparr>msg_id = now E, content = trim (newMessage s), sender_id = profile_id cu,
             created_at = toISOString E (now E), isOwn = True, pending = True\<rparr>"
  let ?t = "\<lparr>timer_id = next_timer s, deadline = now E + 1000, callback = DeliveredCb (now E)\<rparr>"
  let ?s1 = "sendMessage E s"
  let ?x1 = "run_steps before ?s1"
  let ?x2 = "fire_timer (next_timer s) ?x1"
  have s1: "lifecycle_inv (now E) (Some (next_timer s)) ?s1"
    "id_messages (now E) ?s1 = [?m]" "id_timers (next_timer s) ?s1 = [?t]"
    using emitted_lifecycle [OF guard ok fresh ids ref idle] by simp_all
  have k1: "kept (now E) (Some (next_timer s)) ?s1 ?x1"
    by (rule kept_run_steps [OF s1(1) before])
  then have x1: "lifecycle_inv (now E) (Some (next_timer s)) ?x1"
    "id_messages (now E) ?x1 = [?m]" "id_timers (next_timer s) ?x1 = [?t]"
    using s1 by (simp_all add: kept_def)
  have x2: "lifecycle_inv (now E) None ?x2" "id_messages (now E) ?x2 = [?m\<lparr>pending := False\<rparr>]"
    using delivered_after_fire [OF x1] by simp_all
  have k2: "kept (now E) None ?x2 (run_steps after ?x2)"
    by (rule kept_run_steps [OF x2(1) after])
  show "message_state (now E) ?s1 = Pending"
    by (simp add: message_state_id_messages s1(2))
  show "message_state (now E) ?x1 = Pending"
    by (simp add: message_state_id_messages x1(2))
  show "map deadline (filter (\<lambda>tm. timer_id tm = next_timer s) (timers ?x1)) = [now E + 1000]"
    using x1(3) by (simp add: id_timers_def)
  show "message_state (now E) (run_steps after ?x2) = Delivered"
    using k2 x2(2) by (simp add: message_state_id_messages kept_def)
next
  assume thr: "emit_throws E"
  let ?s1 = "sendMessage E s"
  have s1: "lifecycle_inv (now E) None ?s1" "id_messages (now E) ?s1 = []"
    using failed_lifecycle [OF guard thr ids idle] by simp_all
  have k: "kept (now E) None ?s1 (run_steps after ?s1)"
    by (rule kept_run_steps [OF s1(1) after])
  show "message_state (now E) ?s1 = Absent"
    by (simp add: message_state_id_messages s1(2))
  show "message_state (now E) (run_steps after ?s1) = Absent"
    using k s1(2) by (simp add: message_state_id_messages kept_def)
  have "\<forall>tm \<in> set (timers (run_steps after ?s1)). callback tm \<noteq> DeliveredCb (now E)"
    using kept_inv [OF k] by (simp add: lifecycle_inv_def)
  then show "filter (\<lambda>tm. callback tm = DeliveredCb (now E)) (timers (run_steps after ?s1)) = []"
    by (simp add: filter_empty_conv)
qed


theorem optimistic_message_lifecycle_witness:
  "trim (newMessage draft) \<noteq> [] \<and> selectedUser draft = Some alice \<and> socketRef draft \<noteq> None
   \<and> currentUser draft = Some profile0
   \<and> now env1500 = 1500 \<and> map msg_id (messages draft) = [7]
   \<and> map timer_id (timers draft) = [0] \<and> next_timer draft = 1
   \<and> typingTimeoutRef draft = Some 0
   \<and> map callback (timers draft) = [TypingStopCb False (Some alice)]
   \<and> list_all (keeps_conversation 1500 (Some 1)) before_steps
   \<and> list_all (keeps_conversation 1500 None) after_steps
   \<and> message_state 1500 (run_steps before_steps (sendMessage env1500 draft)) = Pending
   \<and> map msg_id (messages (run_steps before_steps (sendMessage env1500 draft))) = [7, 1500, 41]
   \<and> message_state 1500
         (run_steps after_steps (fire_timer 1 (run_steps before_steps (sendMessage env1500 draft))))
       = Delivered
   \<and> map msg_id (messages
         (run_steps after_steps (fire_timer 1 (run_steps before_steps (sendMessage env1500 draft)))))
       = [7, 1500, 41, 2600]
   \<and> message_state 1500 (run_steps after_steps (sendMessage (env1500\<lparr>emit_throws := True\<rparr>) draft))
       = Absent
   \<and> map msg_id (messages (run_steps after_steps (sendMessage (env1500\<lparr>emit_throws := True\<rparr>) draft)))
       = [7]"
  using optimistic_message_lifecycle [of draft alice profile0 env1500 before_steps after_steps]
    optimistic_message_lifecycle [of draft alice profile0 "env1500\<lparr>emit_throws := True\<rparr>"
      before_steps after_steps]
  by (simp add: before_steps_def after_steps_def keeps_conversation_def long_message_def
        message_state_def apply_step_def click_send_def chat_pane_rendered_def
        send_button_disabled_def input_disabled_def handleInputChange_def handleTypingStart_def
        socket_event_def on_message_def on_disconnect_def notification_title_def
        notification_body_def fire_timer_def run_callback_def
        draft_def older_message_def env1500_def session0_def stored0_def env0_def
        sendMessage_def handleTypingStop_def handleTypingStop_in_def setTimeout_def
        clearTimeout_def add_effect_def trim_def is_whitespace_def js_def profile0_def
        alice_def Let_def)

section \<open>Behaviour of the typing timer\<close>

text \<open>
  While \<open>isTyping\<close> holds, \<open>handleTypingStart\<close> changes nothing, the timer included; and the
  callback of a typing timer, which saw \<open>isTyping = false\<close> when it was set, changes nothing
  when it runs.
\<close>

lemma handleTypingStart_while_typing:
  "isTyping s \<Longrightarrow> handleTypingStart E s = s"
  by (simp add: handleTypingStart_def split: option.splits)

lemma typing_timer_callback_idle:
  "run_callback (TypingStopCb False sel) x = x"
  by (simp add: run_callback_def handleTypingStop_in_def split: option.splits)

text \<open>
  Claim C3 against the code: two keystrokes (\<open>handleInputChange\<close>, which calls
  \<open>handleTypingStart\<close>) at 0 ms and 1500 ms, connected, with a conversation selected. One
  \<open>typing_start\<close> is emitted, but the second call returns at the \<open>isTyping\<close> guard before
  \<open>clearTimeout\<close>, so the only timer is still the first one, due at 2000 ms (500 ms after the
  last call) and not at 3500 ms. Its callback runs the \<open>handleTypingStop\<close> of the render that
  set it, where \<open>isTyping\<close> was false, so when it fires no \<open>typing_stop\<close> is emitted and
  \<open>isTyping\<close> stays true.
\<close>

theorem typing_timer_not_reset:
  "effects typed_twice = [Emit (TypingStartOut 2)]
   \<and> timers typed_twice =
       [\<lparr>timer_id = 0, deadline = 2000, callback = TypingStopCb False (Some alice)\<rparr>]
   \<and> effects (fire_timer 0 typed_twice) = [Emit (TypingStartOut 2)]
   \<and> timers (fire_timer 0 typed_twice) = []
   \<and> isTyping (fire_timer 0 typed_twice)"
  by (simp add: typed_twice_def chatting_def handleInputChange_def handleTypingStart_def
        fire_timer_def run_callback_def handleTypingStop_in_def setTimeout_def clearTimeout_def
        add_effect_def session0_def stored0_def env0_def alice_def trim_def is_whitespace_def
        js_def Let_def)

section \<open>Connection errors and reconnection\<close>

text \<open>A cancelled confirmation leaves \<open>handleLogout\<close> with nothing done but the dialog.\<close>

lemma handleLogout_cancelled:
  "\<not> confirm_answer E \<Longrightarrow>
   handleLogout E s = add_effect (Confirm (js ''Are you sure you want to logout?'')) s"
  by (simp add: handleLogout_def Let_def)

text \<open>
  Claim C4 against the code: a \<open>connect_error\<close> whose message contains \<open>auth\<close> calls
  \<open>handleLogout\<close>, which asks \<open>window.confirm\<close>. When the user cancels, the token, the cached
  profile and the current user are kept and the socket is not disconnected; only the status
  \<open>'error'\<close> and the alert \<open>Session expired\<close> follow.
\<close>

theorem auth_error_logout_cancelled:
  "js_includes (err_message auth_error) (js ''auth'')
   \<and> \<not> confirm_answer env0
   \<and> ls_token (socket_event env0 (ConnectErrorEv auth_error) session0) = Some (js ''t1'')
   \<and> ls_userData (socket_event env0 (ConnectErrorEv auth_error) session0) = Some (js ''ann-json'')
   \<and> currentUser (socket_event env0 (ConnectErrorEv auth_error) session0) = Some profile0
   \<and> connectionStatus (socket_event env0 (ConnectErrorEv auth_error) session0) = ConnError
   \<and> effects (socket_event env0 (ConnectErrorEv auth_error) session0) =
       [Confirm (js ''Are you sure you want to logout?''),
        Alert (js ''Session expired. Please login again.'')]"
  by (simp add: socket_event_def on_connect_error_def handleLogout_def add_effect_def
        auth_error_def session0_def stored0_def env0_def js_def Let_def)










section \<open>Properties of the desktop notification\<close>

text \<open>
  Claim C9, as the spec states it, does not hold: with the page hidden and permission granted,
  a message of 51 characters from the contact \<open>bob\<close>, arriving while no conversation is
  selected, is announced as \<open>New message from Someone\<close>, and the body is the first 50
  characters followed by three dots, 53 characters in all.
\<close>

theorem notification_names_someone:
  "document_hidden env0 \<and> notification env0 = Some PermGranted
   \<and> users lobby = [alice, bob] \<and> sender_id long_message = contact_id bob
   \<and> effects (socket_event env0 (MessageEv long_message) lobby) =
       [ShowNotification (js ''New message from Someone'')
          (replicate 50 (of_char CHR ''x'') @ js ''...'')]
   \<and> \<not> js_includes (js ''New message from Someone'') (username bob)
   \<and> length (replicate 50 (of_char CHR ''x'' :: 16 word) @ js ''...'') = 53"
  by (simp add: socket_event_def on_message_def notification_title_def notification_body_def
        add_effect_def lobby_def session0_def stored0_def env0_def long_message_def bob_def js_def)

lemma notification_body_shape:
  "length (notification_body c) \<le> 53 \<and> take 50 (notification_body c) = take 50 c
   \<and> (length c \<le> 50 \<longrightarrow> notification_body c = c)"
  by (simp add: notification_body_def js_def)

text \<open>
  Claim C9, amended: for a \<open>message\<close> event on the channel, if the page is hidden and
  notification permission is granted, exactly one notification is shown; its title starts
  with \<open>New message from\<close> and its body is the content when that has at most 50 characters,
  and otherwise the first 50 characters followed by \<open>...\<close> (at most 53 characters). If the
  page is visible or permission is not granted, no notification is shown.
\<close>

theorem notification_when_hidden_and_granted:
  assumes "socketRef s = Some sock"
  shows "(document_hidden E \<and> notification E = Some PermGranted \<longrightarrow>
            (\<exists>title. effects (socket_event E (MessageEv m) s) =
                        effects s @ [ShowNotification title (notification_body (content m))]
                    \<and> prefix (js ''New message from '') title)
          \<and> notification_body (content m) =
              (if length (content m) > 50 then take 50 (content m) @ js ''...'' else content m)
          \<and> length (notification_body (content m)) \<le> 53)
       \<and> (\<not> (document_hidden E \<and> notification E = Some PermGranted) \<longrightarrow>
            effects (socket_event E (MessageEv m) s) = effects s)"
proof -
  have ev: "socket_event E (MessageEv m) s = on_message E (seen_selectedUser sock) m s"
    using assms by (simp add: socket_event_def)
  have shown: "effects (on_message E sel m s) =
      effects s @ [ShowNotification (notification_title sel) (notification_body (content m))]"
    if "document_hidden E \<and> notification E = Some PermGranted" for sel
    using that by (simp add: on_message_def add_effect_def Let_def)
  have quiet: "effects (on_message E sel m s) = effects s"
    if "\<not> (document_hidden E \<and> notification E = Some PermGranted)" for sel
    using that by (cases "document_hidden E") (simp_all add: on_message_def Let_def)
  have title: "prefix (js ''New message from '') (notification_title sel)" for sel
    by (simp add: notification_title_def)
  have body: "notification_body (content m) =
      (if length (content m) > 50 then take 50 (content m) @ js ''...'' else content m)"
    by (simp add: notification_body_def)
  show ?thesis
    unfolding ev using shown quiet title body notification_body_shape [of "content m"]
    by blast
qed

theorem notification_when_hidden_and_granted_witness:
  "socketRef lobby \<noteq> None \<and> document_hidden env0 \<and> notification env0 = Some PermGranted
   \<and> effects (socket_event env0 (MessageEv long_message) lobby) =
       [ShowNotification (js ''New message from Someone'') (replicate 50 (of_char CHR ''x'') @ js ''...'')]
   \<and> \<not> document_hidden (env0\<lparr>document_hidden := False\<rparr>)
   \<and> effects (socket_event (env0\<lparr>document_hidden := False\<rparr>) (MessageEv long_message) lobby) = []"
  using notification_when_hidden_and_granted [of lobby "the (socketRef lobby)" env0 long_message]
    notification_when_hidden_and_granted [of lobby "the (socketRef lobby)"
      "env0\<lparr>document_hidden := False\<rparr>" long_message]
  by (simp add: socket_event_def on_message_def notification_title_def notification_body_def
        add_effect_def lobby_def session0_def stored0_def env0_def long_message_def js_def)

section \<open>Equivalence of the VAPID key helpers\<close>

text \<open>The loop fills the array with the code units; on byte strings the spread does the same.\<close>

lemma fill_loop_eq:
  "length out = length rawData \<Longrightarrow> i \<le> length rawData \<Longrightarrow>
   fill_loop rawData i out = take i out @ map ucast (drop i rawData)"
proof (induction rawData i out rule: fill_loop.induct)
  case (1 rawData i outputArray)
  show ?case
  proof (cases "i < length rawData")
    case True
    have "fill_loop rawData i outputArray =
        fill_loop rawData (Suc i) (outputArray[i := toUint8 (charCodeAt rawData i)])"
      using True by (subst fill_loop.simps) simp
    also have "\<dots> = take (Suc i) (outputArray[i := toUint8 (charCodeAt rawData i)])
        @ map ucast (drop (Suc i) rawData)"
      using True "1.prems" by (intro "1.IH") simp_all
    also have "\<dots> = take i outputArray @ map ucast (drop i rawData)"
      using True "1.prems"
      by (simp add: take_Suc_conv_app_nth toUint8_def charCodeAt_def Cons_nth_drop_Suc [symmetric])
    finally show ?thesis .
  next
    case False
    then show ?thesis using "1.prems" by (subst fill_loop.simps) simp
  qed
qed

lemma spread_bytes:
  "\<forall>c \<in> set rawData. c < 0x100 \<Longrightarrow> spread rawData = map (\<lambda>c. [c]) rawData"
proof (induction rawData rule: spread.induct)
  case (3 c d cs)
  have "c < 0x100" using "3.prems" by simp
  then have "\<not> is_high_surrogate c"
    by (simp add: is_high_surrogate_def word_less_nat_alt word_le_nat_alt)
  then show ?case using 3 by simp
qed simp_all

lemma base64_padding_eq:
  "concat (replicate n (js ''='')) = replicate n (of_char CHR ''='')"
  by (induction n) (simp_all add: js_def)

lemma base64_of_eq:
  "base64_of s =
     map (\<lambda>c. if c = of_char CHR ''-'' then of_char CHR ''+''
               else if c = of_char CHR ''_'' then of_char CHR ''/'' else c)
       (s @ replicate ((4 - length s mod 4) mod 4) (of_char CHR ''=''))"
  unfolding base64_of_def Let_def replace_all_def base64_padding_eq map_map
  by (rule map_cong [OF refl]) simp

lemma mod4_cases: "(r::nat) < 4 \<Longrightarrow> (r + (4 - r) mod 4) mod 4 = 0"
proof -
  assume "r < 4"
  then consider "r = 0" | "r = 1" | "r = 2" | "r = 3" by linarith
  then show ?thesis by cases simp_all
qed

lemma pad_multiple_of_4: "((n::nat) + (4 - n mod 4) mod 4) mod 4 = 0"
proof -
  have "(n + (4 - n mod 4) mod 4) mod 4 = (n mod 4 + (4 - n mod 4) mod 4) mod 4"
    by (simp add: mod_add_left_eq)
  also have "\<dots> = 0"
    by (rule mod4_cases) simp
  finally show ?thesis .
qed

lemma base64_of_shape:
  "length (base64_of s) mod 4 = 0
   \<and> (\<exists>k < 4. base64_of s =
         map (\<lambda>c. if c = of_char CHR ''-'' then of_char CHR ''+''
                   else if c = of_char CHR ''_'' then of_char CHR ''/'' else c)
           (s @ replicate k (of_char CHR ''='')))"
proof (intro conjI exI [of _ "(4 - length s mod 4) mod 4"])
  show "length (base64_of s) mod 4 = 0"
    unfolding base64_of_eq by (simp add: pad_multiple_of_4)
  show "(4 - length s mod 4) mod 4 < 4"
    by simp
  show "base64_of s =
     map (\<lambda>c. if c = of_char CHR ''-'' then of_char CHR ''+''
               else if c = of_char CHR ''_'' then of_char CHR ''/'' else c)
       (s @ replicate ((4 - length s mod 4) mod 4) (of_char CHR ''=''))"
    by (rule base64_of_eq)
qed

lemma byte_kept: "(w :: 16 word) < 0x100 \<Longrightarrow> unat (ucast w :: 8 word) = unat w"
proof -
  assume "w < 0x100"
  then have "unat w < 2 ^ 8"
    by (simp add: word_less_nat_alt)
  then show ?thesis
    by (simp add: unsigned_ucast_eq take_bit_nat_eq_self)
qed

text \<open>
  Claim C10: when \<open>atob\<close> decodes the prepared input to a byte string (every code unit
  below 256, as \<open>atob\<close> returns), the helper of \<open>src/src/App.js\<close> and the helper of the other
  file return the same array; it has the length of the decoded string and its i-th element
  is the char code of the i-th character. The string given to \<open>atob\<close> has a length that is a
  multiple of 4 and is the input followed by fewer than four \<open>=\<close>, with \<open>-\<close> replaced by \<open>+\<close>
  and \<open>_\<close> by \<open>/\<close>.
\<close>

theorem urlBase64ToUint8Array_same:
  assumes "atob (base64_of s) = Inr rawData" and "\<forall>c \<in> set rawData. c < 0x100"
  shows "urlBase64ToUint8Array_App atob s = urlBase64ToUint8Array atob s
       \<and> (\<exists>out. urlBase64ToUint8Array atob s = Inr out
              \<and> length out = length rawData
              \<and> (\<forall>i < length rawData. unat (out ! i) = unat (rawData ! i)))
       \<and> length (base64_of s) mod 4 = 0
       \<and> (\<exists>k < 4. base64_of s =
             map (\<lambda>c. if c = of_char CHR ''-'' then of_char CHR ''+''
                       else if c = of_char CHR ''_'' then of_char CHR ''/'' else c)
               (s @ replicate k (of_char CHR ''='')))"
proof -
  have loop: "urlBase64ToUint8Array atob s = Inr (map ucast rawData)"
    using assms(1) by (simp add: urlBase64ToUint8Array_def fill_loop_eq)
  have "map (\<lambda>c. toUint8 (charCodeAt c 0)) (spread rawData) = map ucast rawData"
    using assms(2) by (simp add: spread_bytes comp_def toUint8_def charCodeAt_def)
  then have app: "urlBase64ToUint8Array_App atob s = Inr (map ucast rawData)"
    using assms(1) by (simp add: urlBase64ToUint8Array_App_def)
  have "unat (ucast (rawData ! i) :: 8 word) = unat (rawData ! i)" if "i < length rawData" for i
  proof -
    have "rawData ! i < 0x100" using assms(2) that by simp
    then show ?thesis by (rule byte_kept)
  qed
  then have "\<exists>out. urlBase64ToUint8Array atob s = Inr out \<and> length out = length rawData
      \<and> (\<forall>i < length rawData. unat (out ! i) = unat (rawData ! i))"
    using loop by simp
  then show ?thesis
    using loop app base64_of_shape [of s] by (intro conjI) simp_all
qed

theorem urlBase64ToUint8Array_same_witness:
  "atob0 (base64_of (js ''-_8'')) = Inr [0xFB, 0xFF]
   \<and> (0xFB :: 16 word) < 0x100 \<and> (0xFF :: 16 word) < 0x100
   \<and> urlBase64ToUint8Array_App atob0 (js ''-_8'') = Inr [0xFB, 0xFF]
   \<and> urlBase64ToUint8Array atob0 (js ''-_8'') = Inr [0xFB, 0xFF]
   \<and> base64_of (js ''-_8'') = js ''+/8=''"
  using urlBase64ToUint8Array_same [of atob0 "js ''-_8''" "[0xFB, 0xFF]"]
  by (simp add: atob0_def base64_of_def replace_all_def js_def urlBase64ToUint8Array_App_def
        urlBase64ToUint8Array_def toUint8_def charCodeAt_def fill_loop.simps)


end
